theory Spec2Isabelle
  imports Main
begin

section \<open>Values of the host language\<close>

text \<open>
  Everything the storage layer reads from disk goes through \<^verbatim>\<open>JSON.parse\<close>, so the
  settings objects and the legacy blob are JSON values.  An object is the list of its
  entries in enumeration order; a property that is missing reads as \<^verbatim>\<open>undefined\<close>,
  which is \<open>None\<close> here.  Numbers are kept as integers (no claim below computes with
  them).  Strings are lists of code units below 256.
\<close>

datatype json =
    JNull
  | JBool bool
  | JNum int
  | JStr string
  | JArr "json list"
  | JObj "(string \<times> json) list"

type_synonym jobject = "(string \<times> json) list"

datatype error =
    SyntaxError
  | TypeError
  | ReadError string
  | WriteError string
  | SaveDataError
  | VerificationError

text \<open>\<^verbatim>\<open>obj[key]\<close> on a parsed object, \<^verbatim>\<open>delete obj[key]\<close>, and \<^verbatim>\<open>obj[key] = v\<close>
  (an existing key keeps its place, a new one is appended).\<close>

definition obj_get :: "jobject \<Rightarrow> string \<Rightarrow> json option" where
  "obj_get obj k = map_of obj k"

definition obj_delete :: "jobject \<Rightarrow> string \<Rightarrow> jobject" where
  "obj_delete obj k = filter (\<lambda>kv. fst kv \<noteq> k) obj"

definition obj_set :: "jobject \<Rightarrow> string \<Rightarrow> json \<Rightarrow> jobject" where
  "obj_set obj k v =
     (if k \<in> fst ` set obj then map (\<lambda>kv. if fst kv = k then (k, v) else kv) obj
      else obj @ [(k, v)])"

text \<open>Object spread \<^verbatim>\<open>{ ...a, ...b }\<close>: every entry of \<open>b\<close> is assigned onto a copy of \<open>a\<close>.\<close>

definition obj_spread :: "jobject \<Rightarrow> jobject \<Rightarrow> jobject" where
  "obj_spread a b = fold (\<lambda>kv acc. obj_set acc (fst kv) (snd kv)) b a"

text \<open>Truthiness of a value that may be \<^verbatim>\<open>undefined\<close>, and the test of \<^verbatim>\<open>??\<close>.\<close>

fun truthy :: "json option \<Rightarrow> bool" where
  "truthy None = False"
| "truthy (Some JNull) = False"
| "truthy (Some (JBool b)) = b"
| "truthy (Some (JNum n)) = (n \<noteq> 0)"
| "truthy (Some (JStr s)) = (s \<noteq> [])"
| "truthy (Some (JArr xs)) = True"
| "truthy (Some (JObj obj)) = True"

fun nullish_or :: "json option \<Rightarrow> json option \<Rightarrow> json option" where
  "nullish_or None dflt = dflt"
| "nullish_or (Some JNull) dflt = dflt"
| "nullish_or (Some v) dflt = Some v"

text \<open>Decimal notation of an array index, for \<^verbatim>\<open>Object.entries\<close> of an array.\<close>

fun show_nat :: "nat \<Rightarrow> string" where
  "show_nat n =
     (if n < 10 then [''0123456789'' ! n]
      else show_nat (n div 10) @ [''0123456789'' ! (n mod 10)])"

declare show_nat.simps [simp del]

text \<open>\<^verbatim>\<open>Object.entries(v)\<close> for a value that is not null: the entries of an object, the
  indexed elements of an array, the indexed characters of a string, nothing for a number
  or a boolean.\<close>

fun js_entries :: "json \<Rightarrow> jobject" where
  "js_entries (JObj obj) = obj"
| "js_entries (JArr xs) = zip (map show_nat [0..<length xs]) xs"
| "js_entries (JStr s) = zip (map show_nat [0..<length s]) (map (\<lambda>c. JStr [c]) s)"
| "js_entries v = []"

subsection \<open>String helpers\<close>

text \<open>White space of \<^verbatim>\<open>String.prototype.trim\<close> among the code units below 256:
  tab, line feed, vertical tab, form feed, carriage return, space, no-break space.\<close>

definition is_ws :: "char \<Rightarrow> bool" where
  "is_ws c = (c \<in> {CHR 0x09, CHR 0x0A, CHR 0x0B, CHR 0x0C, CHR 0x0D, CHR 0x20, CHR 0xA0})"

definition trim :: "string \<Rightarrow> string" where
  "trim s = rev (dropWhile is_ws (rev (dropWhile is_ws s)))"

text \<open>\<^verbatim>\<open>s.split('\n')\<close> (never empty: the empty string splits into one empty line) and
  \<^verbatim>\<open>lines.join('\n')\<close>.\<close>

fun split_nl :: "string \<Rightarrow> string list" where
  "split_nl [] = [[]]"
| "split_nl (c # cs) =
     (if c = CHR 0x0A then [] # split_nl cs
      else (case split_nl cs of [] \<Rightarrow> [[c]] | l # ls \<Rightarrow> (c # l) # ls))"

fun join_nl :: "string list \<Rightarrow> string" where
  "join_nl [] = []"
| "join_nl [l] = l"
| "join_nl (l # ls) = l @ CHR 0x0A # join_nl ls"

section \<open>migrationConstants: the two environment-variable representations\<close>

text \<open>\<^verbatim>\<open>CLAUDIAN_ONLY_FIELDS\<close>, in the order of the source.\<close>

definition CLAUDIAN_ONLY_FIELDS :: "string list" where
  "CLAUDIAN_ONLY_FIELDS =
     [''userName'',
      ''enableBlocklist'', ''blockedCommands'', ''permissionMode'', ''lastNonPlanPermissionMode'',
      ''model'', ''thinkingBudget'', ''enableAutoTitleGeneration'', ''titleGenerationModel'',
      ''excludedTags'', ''mediaFolder'', ''systemPrompt'', ''allowedExportPaths'',
      ''persistentExternalContextPaths'',
      ''environmentVariables'', ''envSnippets'',
      ''keyboardNavigation'',
      ''claudeCliPath'', ''claudeCliPaths'', ''loadUserClaudeSettings'',
      ''allowedContextPaths'', ''showToolUse'', ''toolCallExpandedByDefault'']"

text \<open>\<^verbatim>\<open>convertEnvObjectToString\<close>: nothing for a falsy or non-object argument; otherwise
  one \<^verbatim>\<open>KEY=VALUE\<close> line per entry whose value is a string.\<close>

fun string_entries :: "jobject \<Rightarrow> (string \<times> string) list" where
  "string_entries [] = []"
| "string_entries ((k, JStr v) # rest) = (k, v) # string_entries rest"
| "string_entries (kv # rest) = string_entries rest"

definition env_line :: "string \<times> string \<Rightarrow> string" where
  "env_line kv = fst kv @ ''='' @ snd kv"

fun convertEnvObjectToString :: "json option \<Rightarrow> string" where
  "convertEnvObjectToString (Some (JObj obj)) = join_nl (map env_line (string_entries obj))"
| "convertEnvObjectToString (Some (JArr xs)) =
     join_nl (map env_line (string_entries (js_entries (JArr xs))))"
| "convertEnvObjectToString v = []"

text \<open>One line of the free-text block, as both loops of \<^verbatim>\<open>mergeEnvironmentVariables\<close>
  read it: trimmed; skipped when blank or a comment; split at the first \<^verbatim>\<open>=\<close>, which must
  not be the first character.\<close>

definition parseEnvLine :: "string \<Rightarrow> (string \<times> string) option" where
  "parseEnvLine line =
     (let trimmed = trim line in
      if trimmed = [] \<or> hd trimmed = CHR ''#'' then None
      else if CHR ''='' \<in> set trimmed \<and> takeWhile (\<lambda>c. c \<noteq> CHR ''='') trimmed \<noteq> []
      then Some (takeWhile (\<lambda>c. c \<noteq> CHR ''='') trimmed,
                 tl (dropWhile (\<lambda>c. c \<noteq> CHR ''='') trimmed))
      else None)"

text \<open>\<^verbatim>\<open>envMap.set(key, value)\<close> on an insertion-ordered \<^verbatim>\<open>Map\<close>.\<close>

definition envMap_set :: "(string \<times> string) list \<Rightarrow> string \<Rightarrow> string \<Rightarrow> (string \<times> string) list" where
  "envMap_set m k v =
     (if k \<in> fst ` set m then map (\<lambda>kv. if fst kv = k then (k, v) else kv) m
      else m @ [(k, v)])"

definition parseEnvInto :: "string \<Rightarrow> (string \<times> string) list \<Rightarrow> (string \<times> string) list" where
  "parseEnvInto text m =
     fold (\<lambda>line acc. case parseEnvLine line of None \<Rightarrow> acc
                        | Some kv \<Rightarrow> envMap_set acc (fst kv) (snd kv))
          (split_nl text) m"

definition mergedEnvMap :: "string \<Rightarrow> string \<Rightarrow> (string \<times> string) list" where
  "mergedEnvMap existing additional = parseEnvInto additional (parseEnvInto existing [])"

definition mergeEnvironmentVariables :: "string \<Rightarrow> string \<Rightarrow> string" where
  "mergeEnvironmentVariables existing additional =
     join_nl (map env_line (mergedEnvMap existing additional))"

text \<open>The environment step of \<^verbatim>\<open>migrateFromOldSettingsJson\<close> (lines 228 to 235):
  \<^verbatim>\<open>environmentVariables ?? ''\<close>, merged with the converted \<^verbatim>\<open>env\<close> object only when that
  object is truthy, of type object, and converts to a non-empty text.  A free-text value
  that is not a string has no \<^verbatim>\<open>split\<close>, so merging it throws.\<close>

fun is_object_type :: "json option \<Rightarrow> bool" where
  "is_object_type (Some (JObj obj)) = True"
| "is_object_type (Some (JArr xs)) = True"
| "is_object_type v = False"

definition migratedEnvironmentVariables :: "json option \<Rightarrow> json option \<Rightarrow> error + json" where
  "migratedEnvironmentVariables environmentVariables env =
     (let existing = (case nullish_or environmentVariables (Some (JStr [])) of
                        Some v \<Rightarrow> v | None \<Rightarrow> JStr []) in
      if is_object_type env \<and> convertEnvObjectToString env \<noteq> []
      then (case existing of
              JStr s \<Rightarrow> Inr (JStr (mergeEnvironmentVariables s (convertEnvObjectToString env)))
            | _ \<Rightarrow> Inl TypeError)
      else Inr existing)"

definition envEntries :: "string \<Rightarrow> (string \<times> string) list" where
  "envEntries text = List.map_filter parseEnvLine (split_nl text)"

section \<open>ClaudianSettingsStorage: the blocked-command lists\<close>

record platformBlockedCommands =
  unix :: "string list"
  windows :: "string list"

text \<open>The elements of an array that pass \<^verbatim>\<open>typeof item === 'string'\<close>.\<close>

fun string_items :: "json list \<Rightarrow> string list" where
  "string_items [] = []"
| "string_items (JStr s # rest) = s # string_items rest"
| "string_items (v # rest) = string_items rest"

text \<open>\<^verbatim>\<open>normalizeCommandList(value, fallback)\<close>: a copy of the fallback unless the value is
  an array; then its strings, trimmed, the empty ones dropped.\<close>

fun normalizeCommandList :: "json option \<Rightarrow> string list \<Rightarrow> string list" where
  "normalizeCommandList (Some (JArr xs)) fallback =
     filter (\<lambda>item. length item > 0) (map trim (string_items xs))"
| "normalizeCommandList v fallback = fallback"

text \<open>\<^verbatim>\<open>normalizeBlockedCommands(value)\<close>.  The table returned by
  \<^verbatim>\<open>getDefaultBlockedCommands()\<close> is declared in the settings types, outside the sources at
  hand, and is the parameter \<open>defaults\<close>.\<close>

fun normalizeBlockedCommands ::
  "platformBlockedCommands \<Rightarrow> json option \<Rightarrow> platformBlockedCommands" where
  "normalizeBlockedCommands defaults (Some (JArr xs)) =
     \<lparr>unix = normalizeCommandList (Some (JArr xs)) (unix defaults),
      windows = windows defaults\<rparr>"
| "normalizeBlockedCommands defaults (Some (JObj candidate)) =
     \<lparr>unix = normalizeCommandList (obj_get candidate ''unix'') (unix defaults),
      windows = normalizeCommandList (obj_get candidate ''windows'') (windows defaults)\<rparr>"
| "normalizeBlockedCommands defaults v = defaults"

text \<open>The wording of the specification, to compare with: the string entries of the
  list, the blank ones removed, each trimmed; a bucket is validated when it is a list and
  defaulted otherwise.\<close>

definition blank :: "string \<Rightarrow> bool" where
  "blank s = list_all is_ws s"

definition spec_cleaned_entries :: "json list \<Rightarrow> string list" where
  "spec_cleaned_entries xs = map trim (filter (\<lambda>s. \<not> blank s) (string_items xs))"

fun spec_validated_or_defaulted :: "json option \<Rightarrow> string list \<Rightarrow> string list" where
  "spec_validated_or_defaulted (Some (JArr xs)) dflt = spec_cleaned_entries xs"
| "spec_validated_or_defaulted v dflt = dflt"

section \<open>Permission rules\<close>

datatype scope = Always | Session

record legacyPermission =
  toolName :: string
  pattern :: string
  approvedAt :: int
  scope :: scope

record ccPermissions =
  allow :: "string list"
  deny :: "string list"
  ask :: "string list"

text \<open>Modelled from the spec: \<^verbatim>\<open>legacyPermissionToCCRule\<close> and
  \<^verbatim>\<open>legacyPermissionsToCCPermissions\<close> are exported by the settings types, which are not
  among the sources at hand; only their unit tests and the call in
  \<^verbatim>\<open>migrateFromOldSettingsJson\<close> are.  Each record is converted to a rule string: the
  bare tool name if its pattern is empty or the wildcard \<^verbatim>\<open>*\<close>, otherwise
  \<^verbatim>\<open>ToolName(pattern)\<close>; only records with scope \<^verbatim>\<open>always\<close> are kept; the rules are
  de-duplicated by final rule string; all converted records are allow-list entries.\<close>

definition legacyPermissionToCCRule :: "legacyPermission \<Rightarrow> string" where
  "legacyPermissionToCCRule legacy =
     (if pattern legacy = [] \<or> pattern legacy = ''*''
      then toolName legacy
      else toolName legacy @ ''('' @ pattern legacy @ '')'')"

fun collectAllowRules :: "legacyPermission list \<Rightarrow> string list \<Rightarrow> string list" where
  "collectAllowRules [] allowed = allowed"
| "collectAllowRules (perm # rest) allowed =
     (if scope perm \<noteq> Always then collectAllowRules rest allowed
      else if legacyPermissionToCCRule perm \<in> set allowed then collectAllowRules rest allowed
      else collectAllowRules rest (allowed @ [legacyPermissionToCCRule perm]))"

definition legacyPermissionsToCCPermissions :: "legacyPermission list \<Rightarrow> ccPermissions" where
  "legacyPermissionsToCCPermissions legacyPermissions =
     \<lparr>allow = collectAllowRules legacyPermissions [], deny = [], ask = []\<rparr>"


definition nl_free :: "(string \<times> string) list \<Rightarrow> bool" where
  "nl_free m = (\<forall>kv\<in>set m. CHR 0x0A \<notin> set (fst kv) \<and> CHR 0x0A \<notin> set (snd kv))"


section \<open>The vault and the host's state store\<close>

text \<open>
  The text of a file is kept as what it denotes: a JSON text is the value that
  \<^verbatim>\<open>JSON.parse\<close> returns for it and \<^verbatim>\<open>JSON.stringify\<close> writes for it, a command or
  session file is the record its store serialised, and any other text fails to parse.
  Two files are byte-identical when their texts are equal.
\<close>

datatype filetext =
    JsonText json
  | CommandText json
  | SessionText json
  | BadText string

fun parseJson :: "filetext \<Rightarrow> error + json" where
  "parseJson (JsonText v) = Inr v"
| "parseJson t = Inl SyntaxError"

text \<open>What a write to a path does in the environment at hand: it succeeds, it throws, or
  it reports success while the file stays as it was (a write that is silently lost).\<close>

datatype wmode = WriteOk | WriteThrows | WriteLost

text \<open>The trace records every call that reaches the vault or the host's state store, in
  order, and every run of a \<^verbatim>\<open>catch\<close> block of the content migration.\<close>

datatype event =
    Exists string
  | Read string
  | Wrote string filetext
  | WriteFailed string
  | WriteDropped string filetext
  | SaveData jobject
  | CaughtItemError

record storage =
  files :: "string \<Rightarrow> filetext option"
  folders :: "string set"
  blob :: "jobject option"
  wmode :: "string \<Rightarrow> wmode"
  saveDataThrows :: bool
  trace :: "event list"

type_synonym 'a io = "storage \<Rightarrow> (error + 'a) \<times> storage"

definition log :: "event \<Rightarrow> storage \<Rightarrow> storage" where
  "log e s = s\<lparr>trace := trace s @ [e]\<rparr>"

text \<open>Modelled from the spec: \<^verbatim>\<open>VaultFileAdapter\<close>, the thin existence/read/write
  wrapper over the host file system, is not among the sources at hand.  A path exists
  when a file or a folder is there; reading a missing file throws; \<^verbatim>\<open>ensureFolder\<close>
  leaves the folder in place.\<close>

definition adapter_exists :: "string \<Rightarrow> storage \<Rightarrow> bool \<times> storage" where
  "adapter_exists path s = (files s path \<noteq> None \<or> path \<in> folders s, log (Exists path) s)"

definition adapter_read :: "string \<Rightarrow> filetext io" where
  "adapter_read path s =
     (case files s path of
        None \<Rightarrow> (Inl (ReadError path), log (Read path) s)
      | Some content \<Rightarrow> (Inr content, log (Read path) s))"

definition adapter_write :: "string \<Rightarrow> filetext \<Rightarrow> unit io" where
  "adapter_write path content s =
     (case wmode s path of
        WriteOk \<Rightarrow> (Inr (), log (Wrote path content) (s\<lparr>files := (files s)(path \<mapsto> content)\<rparr>))
      | WriteThrows \<Rightarrow> (Inl (WriteError path), log (WriteFailed path) s)
      | WriteLost \<Rightarrow> (Inr (), log (WriteDropped path content) s))"

definition adapter_ensureFolder :: "string \<Rightarrow> storage \<Rightarrow> storage" where
  "adapter_ensureFolder path s = s\<lparr>folders := insert path (folders s)\<rparr>"

text \<open>\<^verbatim>\<open>plugin.saveData\<close>: the host replaces the blob, or throws.\<close>

definition plugin_saveData :: "jobject \<Rightarrow> unit io" where
  "plugin_saveData data s =
     (if saveDataThrows s then (Inl SaveDataError, log (SaveData data) s)
      else (Inr (), log (SaveData data) (s\<lparr>blob := Some data\<rparr>)))"

definition CLAUDE_PATH :: string where "CLAUDE_PATH = ''.claude''"
definition CC_SETTINGS_PATH :: string where "CC_SETTINGS_PATH = ''.claude/settings.json''"
definition CLAUDIAN_SETTINGS_PATH :: string where
  "CLAUDIAN_SETTINGS_PATH = ''.claude/claudian-settings.json''"
definition COMMANDS_PATH :: string where "COMMANDS_PATH = ''.claude/commands''"
definition SESSIONS_PATH :: string where "SESSIONS_PATH = ''.claude/sessions''"

text \<open>What the storage service uses and the sources at hand do not define is a
  parameter: the default settings table, the default blocked commands, the default
  permissions, the decoding that \<^verbatim>\<open>CCSettingsStorage.load\<close> applies to the text of the
  settings file, and the file name that each entity store derives (\<open>None\<close> when
  deriving it throws).\<close>

record deps =
  DEFAULT_SETTINGS :: jobject
  defaultBlockedCommands :: platformBlockedCommands
  DEFAULT_CC_PERMISSIONS :: json
  ccSettingsOf :: "filetext option \<Rightarrow> error + json"
  commandFileName :: "json \<Rightarrow> string option"
  sessionFileName :: "json option \<Rightarrow> string"

text \<open>Reading a property of a parsed value: \<^verbatim>\<open>null\<close> has no properties and throws; a
  value that is not an object has none of the settings keys.\<close>

fun js_prop :: "json \<Rightarrow> string \<Rightarrow> error + json option" where
  "js_prop JNull k = Inl TypeError"
| "js_prop (JObj obj) k = Inr (obj_get obj k)"
| "js_prop v k = Inr None"

fun prop_of :: "json \<Rightarrow> string \<Rightarrow> json option" where
  "prop_of (JObj obj) k = obj_get obj k"
| "prop_of v k = None"

section \<open>ClaudianSettingsStorage\<close>

definition encodeBlockedCommands :: "platformBlockedCommands \<Rightarrow> json" where
  "encodeBlockedCommands b =
     JObj [(''unix'', JArr (map JStr (unix b))), (''windows'', JArr (map JStr (windows b)))]"

text \<open>\<^verbatim>\<open>normalizeHostnameCliPaths\<close>: the entries whose value is a string with something
  left after trimming, trimmed.\<close>

fun hostnameEntries :: "jobject \<Rightarrow> jobject \<Rightarrow> jobject" where
  "hostnameEntries [] result = result"
| "hostnameEntries ((key, JStr val) # rest) result =
     (if trim val \<noteq> [] then hostnameEntries rest (obj_set result key (JStr (trim val)))
      else hostnameEntries rest result)"
| "hostnameEntries (kv # rest) result = hostnameEntries rest result"

fun normalizeHostnameCliPaths :: "json option \<Rightarrow> jobject" where
  "normalizeHostnameCliPaths (Some (JObj obj)) = hostnameEntries obj []"
| "normalizeHostnameCliPaths (Some (JArr xs)) = hostnameEntries (js_entries (JArr xs)) []"
| "normalizeHostnameCliPaths v = []"

definition getDefaults :: "deps \<Rightarrow> jobject" where
  "getDefaults d = obj_delete (DEFAULT_SETTINGS d) ''slashCommands''"

text \<open>The record that \<^verbatim>\<open>load()\<close> builds from the parsed file: the defaults, the stored
  entries other than \<^verbatim>\<open>activeConversationId\<close> spread over them, then the three
  normalised fields.  Destructuring \<^verbatim>\<open>null\<close> throws.\<close>

definition loadedSettings :: "deps \<Rightarrow> json \<Rightarrow> error + jobject" where
  "loadedSettings d stored =
     (if stored = JNull then Inl TypeError
      else
        let storedWithoutLegacy = obj_delete (js_entries stored) ''activeConversationId'';
            blockedCommands =
              normalizeBlockedCommands (defaultBlockedCommands d) (prop_of stored ''blockedCommands'');
            hostnameCliPaths = normalizeHostnameCliPaths (prop_of stored ''claudeCliPathsByHost'');
            legacyCliPath = (case prop_of stored ''claudeCliPath'' of
                               Some (JStr path) \<Rightarrow> path | _ \<Rightarrow> [])
        in Inr (obj_set
                 (obj_set
                   (obj_set (obj_spread (getDefaults d) storedWithoutLegacy)
                      ''blockedCommands'' (encodeBlockedCommands blockedCommands))
                   ''claudeCliPath'' (JStr legacyCliPath))
                 ''claudeCliPathsByHost'' (JObj hostnameCliPaths)))"

definition claudianSettings_load :: "deps \<Rightarrow> jobject io" where
  "claudianSettings_load d s =
     (case adapter_exists CLAUDIAN_SETTINGS_PATH s of
        (False, s1) \<Rightarrow> (Inr (getDefaults d), s1)
      | (True, s1) \<Rightarrow>
          (case adapter_read CLAUDIAN_SETTINGS_PATH s1 of
             (Inl e, s2) \<Rightarrow> (Inl e, s2)
           | (Inr content, s2) \<Rightarrow>
               (case parseJson content of
                  Inl e \<Rightarrow> (Inl e, s2)
                | Inr stored \<Rightarrow>
                    (case loadedSettings d stored of
                       Inl e \<Rightarrow> (Inl e, s2)
                     | Inr settings \<Rightarrow> (Inr settings, s2)))))"

definition claudianSettings_save :: "jobject \<Rightarrow> unit io" where
  "claudianSettings_save settings s =
     adapter_write CLAUDIAN_SETTINGS_PATH (JsonText (JObj settings)) s"

definition claudianSettings_exists :: "storage \<Rightarrow> bool \<times> storage" where
  "claudianSettings_exists s = adapter_exists CLAUDIAN_SETTINGS_PATH s"

section \<open>The stores outside the sources at hand\<close>

text \<open>Modelled from the spec: \<^verbatim>\<open>CCSettingsStorage\<close> (the AgentSettingsStore) is not among
  the sources at hand.  Its file is \<^verbatim>\<open>settings.json\<close>; \<^verbatim>\<open>save\<close> overwrites it with the
  record it is given, which the split migration builds from the schema reference and
  the permissions only; \<^verbatim>\<open>load\<close> reads the file, if there is one, and decodes it.\<close>

definition ccSettings_exists :: "storage \<Rightarrow> bool \<times> storage" where
  "ccSettings_exists s = adapter_exists CC_SETTINGS_PATH s"

definition ccSettings_save :: "jobject \<Rightarrow> unit io" where
  "ccSettings_save settings s = adapter_write CC_SETTINGS_PATH (JsonText (JObj settings)) s"

definition ccSettings_load :: "deps \<Rightarrow> json io" where
  "ccSettings_load d s =
     (case adapter_exists CC_SETTINGS_PATH s of
        (False, s1) \<Rightarrow> (ccSettingsOf d None, s1)
      | (True, s1) \<Rightarrow>
          (case adapter_read CC_SETTINGS_PATH s1 of
             (Inl e, s2) \<Rightarrow> (Inl e, s2)
           | (Inr content, s2) \<Rightarrow> (ccSettingsOf d (Some content), s2)))"

text \<open>Modelled from the spec: \<^verbatim>\<open>SlashCommandStorage\<close> and \<^verbatim>\<open>SessionStorage\<close> are not
  among the sources at hand.  Each entity is one file under the directory of its store,
  \<^verbatim>\<open>commands/<slug>.md\<close> with the name derived from the command and
  \<^verbatim>\<open>sessions/<id>.jsonl\<close> with the name derived from the identifier; saving is a
  single-file write to that path.\<close>

definition commands_getFilePath :: "deps \<Rightarrow> json \<Rightarrow> error + string" where
  "commands_getFilePath d command =
     (case commandFileName d command of
        None \<Rightarrow> Inl TypeError
      | Some name \<Rightarrow> Inr (COMMANDS_PATH @ ''/'' @ name))"

definition commands_save :: "deps \<Rightarrow> json \<Rightarrow> unit io" where
  "commands_save d command s =
     (case commands_getFilePath d command of
        Inl e \<Rightarrow> (Inl e, s)
      | Inr filePath \<Rightarrow> adapter_write filePath (CommandText command) s)"

definition sessions_getFilePath :: "deps \<Rightarrow> json option \<Rightarrow> string" where
  "sessions_getFilePath d conversationId = SESSIONS_PATH @ ''/'' @ sessionFileName d conversationId"

definition sessions_saveConversation :: "deps \<Rightarrow> json \<Rightarrow> unit io" where
  "sessions_saveConversation d conversation s =
     adapter_write (sessions_getFilePath d (prop_of conversation ''id''))
       (SessionText conversation) s"


section \<open>StorageService\<close>

subsection \<open>The split migration\<close>

definition hasClaudianFields :: "json \<Rightarrow> error + bool" where
  "hasClaudianFields oldSettings =
     (if oldSettings = JNull then Inl TypeError
      else Inr (list_ex (\<lambda>field. prop_of oldSettings field \<noteq> None) CLAUDIAN_ONLY_FIELDS))"

text \<open>A field of an object literal whose value may be \<^verbatim>\<open>undefined\<close>: \<^verbatim>\<open>JSON.stringify\<close>
  leaves such a field out.\<close>

definition opt_entry :: "string \<Rightarrow> json option \<Rightarrow> jobject" where
  "opt_entry k v = (case v of None \<Rightarrow> [] | Some x \<Rightarrow> [(k, x)])"

definition claudianFields :: "deps \<Rightarrow> json \<Rightarrow> json \<Rightarrow> jobject" where
  "claudianFields d oldSettings environmentVariables =
     (let old = prop_of oldSettings; dflt = obj_get (DEFAULT_SETTINGS d) in
      opt_entry ''userName'' (nullish_or (old ''userName'') (dflt ''userName''))
      @ opt_entry ''enableBlocklist'' (nullish_or (old ''enableBlocklist'') (dflt ''enableBlocklist''))
      @ [(''blockedCommands'',
           encodeBlockedCommands
             (normalizeBlockedCommands (defaultBlockedCommands d) (old ''blockedCommands'')))]
      @ opt_entry ''model'' (nullish_or (old ''model'') (dflt ''model''))
      @ opt_entry ''thinkingBudget'' (nullish_or (old ''thinkingBudget'') (dflt ''thinkingBudget''))
      @ opt_entry ''permissionMode'' (nullish_or (old ''permissionMode'') (dflt ''permissionMode''))
      @ opt_entry ''excludedTags'' (nullish_or (old ''excludedTags'') (dflt ''excludedTags''))
      @ opt_entry ''mediaFolder'' (nullish_or (old ''mediaFolder'') (dflt ''mediaFolder''))
      @ [(''environmentVariables'', environmentVariables)]
      @ opt_entry ''envSnippets'' (nullish_or (old ''envSnippets'') (dflt ''envSnippets''))
      @ opt_entry ''systemPrompt'' (nullish_or (old ''systemPrompt'') (dflt ''systemPrompt''))
      @ opt_entry ''allowedExportPaths''
          (nullish_or (old ''allowedExportPaths'') (dflt ''allowedExportPaths''))
      @ opt_entry ''persistentExternalContextPaths'' (dflt ''persistentExternalContextPaths'')
      @ opt_entry ''keyboardNavigation''
          (nullish_or (old ''keyboardNavigation'') (dflt ''keyboardNavigation''))
      @ opt_entry ''claudeCliPath'' (nullish_or (old ''claudeCliPath'') (dflt ''claudeCliPath''))
      @ opt_entry ''claudeCliPathsByHost'' (dflt ''claudeCliPathsByHost'')
      @ opt_entry ''loadUserClaudeSettings''
          (nullish_or (old ''loadUserClaudeSettings'') (dflt ''loadUserClaudeSettings''))
      @ opt_entry ''enableAutoTitleGeneration''
          (nullish_or (old ''enableAutoTitleGeneration'') (dflt ''enableAutoTitleGeneration''))
      @ opt_entry ''titleGenerationModel''
          (nullish_or (old ''titleGenerationModel'') (dflt ''titleGenerationModel''))
      @ opt_entry ''lastClaudeModel'' (dflt ''lastClaudeModel'')
      @ opt_entry ''lastCustomModel'' (dflt ''lastCustomModel'')
      @ opt_entry ''lastEnvHash'' (dflt ''lastEnvHash''))"


fun as_string :: "json option \<Rightarrow> string option" where
  "as_string (Some (JStr s)) = Some s"
| "as_string v = None"

fun as_number :: "json option \<Rightarrow> int option" where
  "as_number (Some (JNum n)) = Some n"
| "as_number v = None"

definition as_scope :: "json option \<Rightarrow> scope option" where
  "as_scope v =
     (case as_string v of
        None \<Rightarrow> None
      | Some s \<Rightarrow> if s = ''always'' then Some Always
                  else if s = ''session'' then Some Session else None)"

definition decodeLegacyPermission :: "json \<Rightarrow> legacyPermission option" where
  "decodeLegacyPermission v =
     (case as_string (prop_of v ''toolName'') of None \<Rightarrow> None | Some t \<Rightarrow>
     (case as_string (prop_of v ''pattern'') of None \<Rightarrow> None | Some p \<Rightarrow>
     (case as_number (prop_of v ''approvedAt'') of None \<Rightarrow> None | Some a \<Rightarrow>
     (case as_scope (prop_of v ''scope'') of None \<Rightarrow> None | Some sc \<Rightarrow>
        Some \<lparr>toolName = t, pattern = p, approvedAt = a, scope = sc\<rparr>))))"

fun decodeLegacyPermissions :: "json list \<Rightarrow> legacyPermission list option" where
  "decodeLegacyPermissions [] = Some []"
| "decodeLegacyPermissions (v # vs) =
     (case decodeLegacyPermission v of None \<Rightarrow> None | Some p \<Rightarrow>
     (case decodeLegacyPermissions vs of None \<Rightarrow> None | Some ps \<Rightarrow> Some (p # ps)))"

definition legacyPermissionsOf :: "json \<Rightarrow> legacyPermission list option" where
  "legacyPermissionsOf oldSettings =
     (case prop_of oldSettings ''permissions'' of
        Some (JArr records) \<Rightarrow> decodeLegacyPermissions records
      | _ \<Rightarrow> None)"

definition isLegacyPermissionsFormat :: "json \<Rightarrow> bool" where
  "isLegacyPermissionsFormat oldSettings = (legacyPermissionsOf oldSettings \<noteq> None)"

definition encodeCCPermissions :: "ccPermissions \<Rightarrow> json" where
  "encodeCCPermissions p =
     JObj [(''allow'', JArr (map JStr (allow p))),
           (''deny'', JArr (map JStr (deny p))),
           (''ask'', JArr (map JStr (ask p)))]"

text \<open>Lines 272 to 288: the permissions of the rewritten settings file.\<close>

definition or_empty_array :: "json option \<Rightarrow> json" where
  "or_empty_array v = (case nullish_or v (Some (JArr [])) of Some x \<Rightarrow> x | None \<Rightarrow> JArr [])"

definition ccPermissionsOf :: "deps \<Rightarrow> json \<Rightarrow> json" where
  "ccPermissionsOf d oldSettings =
     (case legacyPermissionsOf oldSettings of
        Some legacy \<Rightarrow> encodeCCPermissions (legacyPermissionsToCCPermissions legacy)
      | None \<Rightarrow>
          (case prop_of oldSettings ''permissions'' of
             Some (JObj existingPerms) \<Rightarrow>
               JObj ([(''allow'', or_empty_array (obj_get existingPerms ''allow'')),
                      (''deny'', or_empty_array (obj_get existingPerms ''deny'')),
                      (''ask'', or_empty_array (obj_get existingPerms ''ask''))]
                     @ opt_entry ''defaultMode'' (obj_get existingPerms ''defaultMode'')
                     @ opt_entry ''additionalDirectories''
                         (obj_get existingPerms ''additionalDirectories''))
           | _ \<Rightarrow> DEFAULT_CC_PERMISSIONS d))"

definition ccSettingsFor :: "deps \<Rightarrow> json \<Rightarrow> jobject" where
  "ccSettingsFor d oldSettings =
     [(''$schema'', JStr ''https://json.schemastore.org/claude-code-settings.json''),
      (''permissions'', ccPermissionsOf d oldSettings)]"

definition migrateFromOldSettingsJson :: "deps \<Rightarrow> unit io" where
  "migrateFromOldSettingsJson d s =
     (case adapter_read CC_SETTINGS_PATH s of
        (Inl e, s1) \<Rightarrow> (Inl e, s1)
      | (Inr content, s1) \<Rightarrow>
     (case parseJson content of
        Inl e \<Rightarrow> (Inl e, s1)
      | Inr oldSettings \<Rightarrow>
     (case hasClaudianFields oldSettings of
        Inl e \<Rightarrow> (Inl e, s1)
      | Inr False \<Rightarrow> (Inr (), s1)
      | Inr True \<Rightarrow>
     (case migratedEnvironmentVariables (prop_of oldSettings ''environmentVariables'')
             (prop_of oldSettings ''env'') of
        Inl e \<Rightarrow> (Inl e, s1)
      | Inr environmentVariables \<Rightarrow>
     (case claudianSettings_save (claudianFields d oldSettings environmentVariables) s1 of
        (Inl e, s2) \<Rightarrow> (Inl e, s2)
      | (Inr saved, s2) \<Rightarrow>
     (case claudianSettings_load d s2 of
        (Inl e, s3) \<Rightarrow> (Inl e, s3)
      | (Inr savedClaudian, s3) \<Rightarrow>
          if obj_get savedClaudian ''userName'' = None then (Inl VerificationError, s3)
          else ccSettings_save (ccSettingsFor d oldSettings) s3))))))"

subsection \<open>The migrations of the legacy blob\<close>

definition loadDataJson :: "storage \<Rightarrow> jobject option" where
  "loadDataJson s = blob s"

definition hasStateToMigrate :: "jobject \<Rightarrow> bool" where
  "hasStateToMigrate data =
     (obj_get data ''lastEnvHash'' \<noteq> None
      \<or> obj_get data ''lastClaudeModel'' \<noteq> None
      \<or> obj_get data ''lastCustomModel'' \<noteq> None)"

text \<open>The two content fields are arrays when they are present, as \<^verbatim>\<open>LegacyDataJson\<close>
  declares them.\<close>

definition contentItems :: "jobject \<Rightarrow> string \<Rightarrow> json list" where
  "contentItems data k = (case obj_get data k of Some (JArr items) \<Rightarrow> items | _ \<Rightarrow> [])"

definition hasLegacyContentToMigrate :: "jobject \<Rightarrow> bool" where
  "hasLegacyContentToMigrate data =
     (length (contentItems data ''slashCommands'') > 0
      \<or> length (contentItems data ''conversations'') > 0)"

text \<open>One guarded assignment of \<^verbatim>\<open>migrateFromDataJson\<close>:
  \<^verbatim>\<open>if (dataJson.f !== undefined && !claudian.f) claudian.f = dataJson.f\<close>.\<close>

definition mergeStateField :: "jobject \<Rightarrow> string \<Rightarrow> jobject \<Rightarrow> jobject" where
  "mergeStateField dataJson field claudianSettings =
     (case obj_get dataJson field of
        None \<Rightarrow> claudianSettings
      | Some v \<Rightarrow>
          if truthy (obj_get claudianSettings field) then claudianSettings
          else obj_set claudianSettings field v)"

definition mergedState :: "jobject \<Rightarrow> jobject \<Rightarrow> jobject" where
  "mergedState dataJson claudianSettings =
     mergeStateField dataJson ''lastCustomModel''
       (mergeStateField dataJson ''lastClaudeModel''
         (mergeStateField dataJson ''lastEnvHash'' claudianSettings))"

definition migrateFromDataJson :: "deps \<Rightarrow> jobject \<Rightarrow> unit io" where
  "migrateFromDataJson d dataJson s =
     (case claudianSettings_load d s of
        (Inl e, s1) \<Rightarrow> (Inl e, s1)
      | (Inr claudianSettings, s1) \<Rightarrow>
          claudianSettings_save (mergedState dataJson claudianSettings) s1)"

text \<open>One turn of each loop of \<^verbatim>\<open>migrateLegacyDataJsonContent\<close>; the result tells
  whether the \<^verbatim>\<open>catch\<close> block ran.\<close>

definition migrateCommand :: "deps \<Rightarrow> json \<Rightarrow> storage \<Rightarrow> bool \<times> storage" where
  "migrateCommand d command s =
     (case commands_getFilePath d command of
        Inl e \<Rightarrow> (True, log CaughtItemError s)
      | Inr filePath \<Rightarrow>
          (case adapter_exists filePath s of
             (True, s1) \<Rightarrow> (False, s1)
           | (False, s1) \<Rightarrow>
               (case commands_save d command s1 of
                  (Inl e, s2) \<Rightarrow> (True, log CaughtItemError s2)
                | (Inr saved, s2) \<Rightarrow> (False, s2))))"

definition migrateConversation :: "deps \<Rightarrow> json \<Rightarrow> storage \<Rightarrow> bool \<times> storage" where
  "migrateConversation d conversation s =
     (case js_prop conversation ''id'' of
        Inl e \<Rightarrow> (True, log CaughtItemError s)
      | Inr conversationId \<Rightarrow>
          (case adapter_exists (sessions_getFilePath d conversationId) s of
             (True, s1) \<Rightarrow> (False, s1)
           | (False, s1) \<Rightarrow>
               (case sessions_saveConversation d conversation s1 of
                  (Inl e, s2) \<Rightarrow> (True, log CaughtItemError s2)
                | (Inr saved, s2) \<Rightarrow> (False, s2))))"

fun migrateEach ::
  "(json \<Rightarrow> storage \<Rightarrow> bool \<times> storage) \<Rightarrow> json list \<Rightarrow> bool \<Rightarrow> storage \<Rightarrow> bool \<times> storage" where
  "migrateEach step [] hadErrors s = (hadErrors, s)"
| "migrateEach step (item # items) hadErrors s =
     (case step item s of (failed, s1) \<Rightarrow> migrateEach step items (hadErrors \<or> failed) s1)"

definition migrateLegacyDataJsonContent :: "deps \<Rightarrow> jobject \<Rightarrow> storage \<Rightarrow> bool \<times> storage" where
  "migrateLegacyDataJsonContent d dataJson s =
     (case migrateEach (migrateCommand d) (contentItems dataJson ''slashCommands'') False s of
        (hadErrors, s1) \<Rightarrow>
          migrateEach (migrateConversation d) (contentItems dataJson ''conversations'') hadErrors s1)"

definition consumedKeys :: "string list" where
  "consumedKeys =
     [''lastEnvHash'', ''lastClaudeModel'', ''lastCustomModel'',
      ''conversations'', ''slashCommands'', ''migrationVersion'']"

definition cleaned :: "jobject \<Rightarrow> jobject" where
  "cleaned dataJson = fold (\<lambda>k obj. obj_delete obj k) consumedKeys dataJson"

definition clearLegacyDataJson :: "unit io" where
  "clearLegacyDataJson s =
     (case loadDataJson s of
        None \<Rightarrow> (Inr (), s)
      | Some dataJson \<Rightarrow>
          if length (cleaned dataJson) = 0 then plugin_saveData [] s
          else plugin_saveData (cleaned dataJson) s)"

subsection \<open>Start-up\<close>

definition runMigrations :: "deps \<Rightarrow> unit io" where
  "runMigrations d s =
     (case ccSettings_exists s of (ccExists, s1) \<Rightarrow>
     (case claudianSettings_exists s1 of (claudianExists, s2) \<Rightarrow>
     (let dataJson = loadDataJson s2 in
     (case (if ccExists \<and> \<not> claudianExists then migrateFromOldSettingsJson d s2
            else (Inr (), s2)) of
        (Inl e, s3) \<Rightarrow> (Inl e, s3)
      | (Inr split, s3) \<Rightarrow>
     (case dataJson of
        None \<Rightarrow> (Inr (), s3)
      | Some data \<Rightarrow>
     (case (if hasStateToMigrate data then migrateFromDataJson d data s3 else (Inr (), s3)) of
        (Inl e, s4) \<Rightarrow> (Inl e, s4)
      | (Inr state, s4) \<Rightarrow>
     (case (if hasLegacyContentToMigrate data then migrateLegacyDataJsonContent d data s4
            else (False, s4)) of
        (legacyContentHadErrors, s5) \<Rightarrow>
          if (hasStateToMigrate data \<or> hasLegacyContentToMigrate data)
             \<and> \<not> legacyContentHadErrors
          then clearLegacyDataJson s5
          else (Inr (), s5))))))))"

definition ensureDirectories :: "storage \<Rightarrow> storage" where
  "ensureDirectories s =
     adapter_ensureFolder SESSIONS_PATH
       (adapter_ensureFolder COMMANDS_PATH (adapter_ensureFolder CLAUDE_PATH s))"

record combinedSettings =
  cc :: json
  claudian :: jobject

definition initialize :: "deps \<Rightarrow> combinedSettings io" where
  "initialize d s =
     (case runMigrations d (ensureDirectories s) of
        (Inl e, s1) \<Rightarrow> (Inl e, s1)
      | (Inr migrated, s1) \<Rightarrow>
     (case ccSettings_load d s1 of
        (Inl e, s2) \<Rightarrow> (Inl e, s2)
      | (Inr ccLoaded, s2) \<Rightarrow>
     (case claudianSettings_load d s2 of
        (Inl e, s3) \<Rightarrow> (Inl e, s3)
      | (Inr claudianLoaded, s3) \<Rightarrow> (Inr \<lparr>cc = ccLoaded, claudian = claudianLoaded\<rparr>, s3))))"


section \<open>A concrete environment\<close>

text \<open>The environment of the repository's storage tests: a vault that starts with the
  given files, in which every write succeeds, and a small table of defaults.  The
  concrete instances of the theorems below are stated on it.\<close>

definition mockDeps :: deps where
  "mockDeps =
     \<lparr>DEFAULT_SETTINGS =
        [(''userName'', JStr []), (''enableBlocklist'', JBool True),
         (''lastClaudeModel'', JStr ''haiku''), (''lastCustomModel'', JStr []),
         (''lastEnvHash'', JStr []), (''slashCommands'', JArr [])],
      defaultBlockedCommands = \<lparr>unix = [''rm -rf''], windows = [''Format-Volume'']\<rparr>,
      DEFAULT_CC_PERMISSIONS = JObj [(''allow'', JArr []), (''deny'', JArr []), (''ask'', JArr [])],
      ccSettingsOf = (\<lambda>content. case content of None \<Rightarrow> Inr (JObj []) | Some t \<Rightarrow> parseJson t),
      commandFileName =
        (\<lambda>command. case prop_of command ''name'' of
                      Some (JStr name) \<Rightarrow> Some (name @ ''.md'') | _ \<Rightarrow> None),
      sessionFileName =
        (\<lambda>conversationId. case conversationId of
                      Some (JStr name) \<Rightarrow> name @ ''.jsonl'' | _ \<Rightarrow> ''undefined.jsonl'')\<rparr>"

definition mockStorage :: "(string \<times> filetext) list \<Rightarrow> jobject option \<Rightarrow> storage" where
  "mockStorage initialFiles dataJson =
     \<lparr>files = map_of initialFiles, folders = {}, blob = dataJson,
      wmode = (\<lambda>path. WriteOk), saveDataThrows = False, trace = []\<rparr>"

text \<open>The events a run appends to the trace.\<close>

definition emitted :: "storage \<Rightarrow> storage \<Rightarrow> event list" where
  "emitted s s' = drop (length (trace s)) (trace s')"

fun is_write_to :: "string \<Rightarrow> event \<Rightarrow> bool" where
  "is_write_to path (Wrote p content) = (p = path)"
| "is_write_to path (WriteFailed p) = (p = path)"
| "is_write_to path (WriteDropped p content) = (p = path)"
| "is_write_to path e = False"

fun is_write :: "event \<Rightarrow> bool" where
  "is_write (Wrote p content) = True"
| "is_write (WriteFailed p) = True"
| "is_write (WriteDropped p content) = True"
| "is_write (SaveData data) = True"
| "is_write e = False"

fun is_saveData :: "event \<Rightarrow> bool" where
  "is_saveData (SaveData data) = True"
| "is_saveData e = False"





text \<open>A run keeps the files that were there: their texts, the folders, the blob and the
  behaviour of the environment are as before.\<close>

definition keeps :: "storage \<Rightarrow> storage \<Rightarrow> bool" where
  "keeps s s' =
     ((\<forall>p. files s p \<noteq> None \<longrightarrow> files s' p = files s p)
      \<and> folders s' = folders s \<and> blob s' = blob s
      \<and> wmode s' = wmode s \<and> saveDataThrows s' = saveDataThrows s)"

definition path_exists :: "storage \<Rightarrow> string \<Rightarrow> bool" where
  "path_exists s path = (files s path \<noteq> None \<or> path \<in> folders s)"

text \<open>A blob with one command and one conversation, and a vault that already holds the
  file of each.\<close>

definition reviewCommand :: json where
  "reviewCommand =
     JObj [(''id'', JStr ''cmd-review''), (''name'', JStr ''review''),
           (''content'', JStr ''Review the file.'')]"

definition firstConversation :: json where
  "firstConversation =
     JObj [(''id'', JStr ''conv-1''), (''title'', JStr ''First''), (''messages'', JArr [])]"

definition blobWithContent :: jobject where
  "blobWithContent =
     [(''slashCommands'', JArr [reviewCommand]), (''conversations'', JArr [firstConversation])]"

definition migratedVault :: storage where
  "migratedVault =
     mockStorage
       [(''.claude/commands/review.md'', BadText ''edited by hand''),
        (''.claude/sessions/conv-1.jsonl'', BadText ''kept'')]
       (Some blobWithContent)"

text \<open>What a run did, apart from the files it wrote: the events it appended, with the
  folders, the blob and the behaviour of the environment unchanged.\<close>

definition run_of :: "storage \<Rightarrow> storage \<Rightarrow> event list \<Rightarrow> bool" where
  "run_of s s' evs =
     (trace s' = trace s @ evs \<and> folders s' = folders s \<and> blob s' = blob s
      \<and> wmode s' = wmode s \<and> saveDataThrows s' = saveDataThrows s)"

fun is_failure :: "event \<Rightarrow> bool" where
  "is_failure (WriteFailed p) = True"
| "is_failure CaughtItemError = True"
| "is_failure e = False"

definition quiet :: "event list \<Rightarrow> bool" where
  "quiet evs = (\<forall>e\<in>set evs. \<not> is_saveData e \<and> e \<noteq> CaughtItemError)"

definition clean :: "event list \<Rightarrow> bool" where
  "clean evs = (\<forall>e\<in>set evs. \<not> is_saveData e \<and> \<not> is_failure e)"

text \<open>The legacy combined file of the end-to-end example; the same vault when the write
  to the plugin settings is silently lost; and a table of defaults without a user name,
  with a legacy file that has none either.\<close>

definition legacySettings :: json where
  "legacySettings =
     JObj [(''userName'', JStr ''Ann''),
           (''blockedCommands'', JArr [JStr ''rm -rf'']),
           (''permissions'',
              JArr [JObj [(''toolName'', JStr ''Bash''), (''pattern'', JStr ''git *''),
                          (''approvedAt'', JNum 1), (''scope'', JStr ''always'')]])]"

definition legacyVault :: storage where
  "legacyVault = mockStorage [(CC_SETTINGS_PATH, JsonText legacySettings)] None"

definition lossyVault :: storage where
  "lossyVault =
     legacyVault\<lparr>wmode := (\<lambda>path. if path = CLAUDIAN_SETTINGS_PATH then WriteLost else WriteOk)\<rparr>"

definition depsWithoutUserName :: deps where
  "depsWithoutUserName = mockDeps\<lparr>DEFAULT_SETTINGS := [(''enableBlocklist'', JBool True)]\<rparr>"

definition vaultWithoutUserName :: storage where
  "vaultWithoutUserName =
     mockStorage [(CC_SETTINGS_PATH, JsonText (JObj [(''model'', JStr ''opus'')]))] None"

text \<open>A turn of a loop of the content migration: the \<^verbatim>\<open>catch\<close> block ran exactly when the
  turn reports a failure, and a turn without failure emitted no failed write.\<close>

definition turn_of :: "storage \<Rightarrow> storage \<Rightarrow> bool \<Rightarrow> event list \<Rightarrow> bool" where
  "turn_of s s' failed evs =
     (run_of s s' evs \<and> (\<forall>e\<in>set evs. \<not> is_saveData e)
      \<and> (failed = (CaughtItemError \<in> set evs)) \<and> (\<not> failed \<longrightarrow> clean evs))"

text \<open>How a run of \<^verbatim>\<open>runMigrations\<close> ended, read off its result \<open>r\<close> and the events
  \<open>evs\<close> it emitted: it threw before the gate; it found nothing to migrate in the blob;
  the content migration caught an error; or it reached \<^verbatim>\<open>clearLegacyDataJson\<close>.\<close>

definition migrations_outcome ::
  "storage \<Rightarrow> storage \<Rightarrow> error + unit \<Rightarrow> event list \<Rightarrow> bool" where
  "migrations_outcome s s' r evs =
     (trace s' = trace s @ evs \<and> folders s' = folders s \<and>
      ((r \<noteq> Inr () \<and> quiet evs \<and> blob s' = blob s)
       \<or> (r = Inr () \<and> clean evs \<and> blob s' = blob s
           \<and> (blob s = None
               \<or> (\<exists>b. blob s = Some b \<and> \<not> hasStateToMigrate b
                      \<and> \<not> hasLegacyContentToMigrate b)))
       \<or> (r = Inr () \<and> (\<exists>b. blob s = Some b \<and> hasLegacyContentToMigrate b)
           \<and> CaughtItemError \<in> set evs \<and> list_all (\<lambda>e. \<not> is_saveData e) evs
           \<and> blob s' = blob s)
       \<or> (\<exists>b pre. blob s = Some b \<and> (hasStateToMigrate b \<or> hasLegacyContentToMigrate b)
           \<and> evs = pre @ [SaveData (cleaned b)] \<and> clean pre
           \<and> (if r = Inr () then blob s' = Some (cleaned b) else blob s' = blob s))))"

text \<open>The vaults of the repository's two tests of the clearing: a blob with one command,
  in a vault that takes every write and in one where writes under the commands folder
  throw.\<close>

definition commandVault :: storage where
  "commandVault = mockStorage [] (Some [(''slashCommands'', JArr [reviewCommand])])"

definition failingVault :: storage where
  "failingVault =
     commandVault\<lparr>wmode := (\<lambda>path. if take 17 path = ''.claude/commands/'' then WriteThrows
                                    else WriteOk)\<rparr>"

text \<open>A run without fault: no item error was caught, no write failed and no write was
  silently lost.\<close>

fun is_dropped :: "event \<Rightarrow> bool" where
  "is_dropped (WriteDropped p content) = True"
| "is_dropped e = False"

definition faultless :: "event list \<Rightarrow> bool" where
  "faultless evs = list_all (\<lambda>e. \<not> is_failure e \<and> \<not> is_dropped e) evs"

text \<open>A run spares a path when it leaves the text at that path as it was, removes no
  file and no folder, and only appends to the trace.\<close>

definition spares :: "string \<Rightarrow> storage \<Rightarrow> storage \<Rightarrow> bool" where
  "spares path s s' =
     ((\<exists>evs. trace s' = trace s @ evs) \<and> folders s' = folders s
      \<and> files s' path = files s path \<and> (\<forall>p. files s p \<noteq> None \<longrightarrow> files s' p \<noteq> None))"

text \<open>A vault is settled when \<^verbatim>\<open>runMigrations\<close> finds nothing left to do in it: the split
  migration is not triggered or returns at its first check, and the blob is absent or
  has neither state nor content to migrate.\<close>

definition files_settled :: "storage \<Rightarrow> bool" where
  "files_settled s =
     (\<not> path_exists s CC_SETTINGS_PATH \<or> path_exists s CLAUDIAN_SETTINGS_PATH
      \<or> (\<exists>old. files s CC_SETTINGS_PATH = Some (JsonText old)
                \<and> hasClaudianFields old = Inr False))"

definition blob_settled :: "storage \<Rightarrow> bool" where
  "blob_settled s =
     (case blob s of
        None \<Rightarrow> True
      | Some b \<Rightarrow> \<not> hasStateToMigrate b \<and> \<not> hasLegacyContentToMigrate b)"

text \<open>The vault of the test of the failing command write, with an environment hash in
  the blob as well.\<close>

definition retryVault :: storage where
  "retryVault =
     failingVault\<lparr>blob := Some [(''lastEnvHash'', JStr ''new''),
                                (''slashCommands'', JArr [reviewCommand])]\<rparr>"


text \<open>The vault as \<^verbatim>\<open>claudianSettings.save\<close> leaves it when it returns: the plugin settings
  file holds the saved record where the vault takes the write, and is as before where the
  write is silently lost.  \<open>readBack\<close> is what \<^verbatim>\<open>claudianSettings.load()\<close> returns there.\<close>

definition savedVault :: "storage \<Rightarrow> jobject \<Rightarrow> storage" where
  "savedVault s settings =
     (if wmode s CLAUDIAN_SETTINGS_PATH = WriteOk
      then s\<lparr>files := (files s)(CLAUDIAN_SETTINGS_PATH \<mapsto> JsonText (JObj settings))\<rparr>
      else s)"

definition readBack :: "deps \<Rightarrow> storage \<Rightarrow> jobject \<Rightarrow> error + jobject" where
  "readBack d s settings = fst (claudianSettings_load d (savedVault s settings))"

text \<open>The event of the write of \<open>content\<close> to \<open>path\<close> in the vault \<open>s\<close>.\<close>

definition writeEvent :: "storage \<Rightarrow> string \<Rightarrow> filetext \<Rightarrow> event" where
  "writeEvent s path content =
     (case wmode s path of
        WriteOk \<Rightarrow> Wrote path content
      | WriteThrows \<Rightarrow> WriteFailed path
      | WriteLost \<Rightarrow> WriteDropped path content)"







section \<open>Properties of the environment merge\<close>

lemma replace_keys: "map fst (map (\<lambda>kv. if fst kv = k then (k, v) else kv) m) = map fst m"
  by (induction m) auto

lemma envMap_set_distinct: "distinct (map fst m) \<Longrightarrow> distinct (map fst (envMap_set m k v))"
  unfolding envMap_set_def using replace_keys [of k v m] by (auto simp del: map_map)

lemma map_of_replace:
  "map_of (map (\<lambda>kv. if fst kv = k then (k, v) else kv) m) k' =
     (if k' = k then (if k \<in> set (map fst m) then Some v else None) else map_of m k')"
  by (induction m) force+

lemma envMap_set_map_of: "map_of (envMap_set m k v) k' = (if k' = k then Some v else map_of m k')"
proof (cases "k \<in> fst ` set m")
  case True
  then show ?thesis by (simp add: envMap_set_def map_of_replace)
next
  case False
  then have "map_of m k = None" by (simp add: map_of_eq_None_iff)
  with False show ?thesis by (simp add: envMap_set_def map_add_def split: option.splits)
qed

lemma map_of_rev_Cons:
  "map_of (rev (x # xs)) k =
     (case map_of (rev xs) k of Some v \<Rightarrow> Some v
      | None \<Rightarrow> if fst x = k then Some (snd x) else None)"
  by (cases x) (auto simp: map_add_def split: option.splits)

lemma fold_env_distinct:
  "distinct (map fst m) \<Longrightarrow>
   distinct (map fst (fold (\<lambda>line acc. case parseEnvLine line of None \<Rightarrow> acc
                        | Some kv \<Rightarrow> envMap_set acc (fst kv) (snd kv)) ls m))"
  by (induction ls arbitrary: m) (auto simp: envMap_set_distinct split: option.splits)

lemma fold_env_map_of:
  "map_of (fold (\<lambda>line acc. case parseEnvLine line of None \<Rightarrow> acc
                        | Some kv \<Rightarrow> envMap_set acc (fst kv) (snd kv)) ls m) k
   = (case map_of (rev (List.map_filter parseEnvLine ls)) k of
        Some v \<Rightarrow> Some v | None \<Rightarrow> map_of m k)"
proof (induction ls arbitrary: m)
  case Nil
  then show ?case by simp
next
  case (Cons l ls)
  show ?case
  proof (cases "parseEnvLine l")
    case None
    then show ?thesis using Cons by simp
  next
    case (Some kv)
    then have "List.map_filter parseEnvLine (l # ls) = kv # List.map_filter parseEnvLine ls"
      by simp
    then show ?thesis using Cons Some
      by (simp add: map_of_rev_Cons envMap_set_map_of del: rev.simps split: option.splits)
  qed
qed

lemma parseEnvInto_distinct: "distinct (map fst m) \<Longrightarrow> distinct (map fst (parseEnvInto t m))"
  unfolding parseEnvInto_def by (rule fold_env_distinct)

lemma parseEnvInto_map_of:
  "map_of (parseEnvInto t m) k =
     (case map_of (rev (envEntries t)) k of Some v \<Rightarrow> Some v | None \<Rightarrow> map_of m k)"
  unfolding parseEnvInto_def envEntries_def by (rule fold_env_map_of)

lemma mergedEnvMap_distinct: "distinct (map fst (mergedEnvMap a b))"
  by (simp add: mergedEnvMap_def parseEnvInto_distinct)

lemma mergedEnvMap_map_of:
  "map_of (mergedEnvMap a b) k =
    (case map_of (rev (envEntries b)) k of Some v \<Rightarrow> Some v
     | None \<Rightarrow> map_of (rev (envEntries a)) k)"
  by (simp add: mergedEnvMap_def parseEnvInto_map_of split: option.splits)

lemma split_nl_nonempty: "split_nl t \<noteq> []"
  by (induction t) (auto split: list.splits)

lemma split_nl_no_nl: "l \<in> set (split_nl t) \<Longrightarrow> CHR 0x0A \<notin> set l"
proof (induction t arbitrary: l)
  case Nil
  then show ?case by simp
next
  case (Cons c cs)
  then show ?case by (auto split: if_splits list.splits)
qed

lemma split_nl_plain: "CHR 0x0A \<notin> set l \<Longrightarrow> split_nl l = [l]"
  by (induction l) auto

lemma split_nl_append: "CHR 0x0A \<notin> set l \<Longrightarrow> split_nl (l @ CHR 0x0A # t) = l # split_nl t"
  by (induction l) auto

lemma split_join_nl:
  "ls \<noteq> [] \<Longrightarrow> \<forall>l\<in>set ls. CHR 0x0A \<notin> set l \<Longrightarrow> split_nl (join_nl ls) = ls"
proof (induction ls rule: join_nl.induct)
  case 1
  then show ?case by simp
next
  case (2 l)
  then show ?case by (simp add: split_nl_plain)
next
  case (3 l v va)
  then show ?case by (simp add: split_nl_append)
qed

lemma set_trim: "set (trim l) \<subseteq> set l"
proof
  fix x assume "x \<in> set (trim l)"
  then have "x \<in> set (dropWhile is_ws (rev (dropWhile is_ws l)))" by (simp add: trim_def)
  then have "x \<in> set (rev (dropWhile is_ws l))" by (rule set_dropWhileD)
  then have "x \<in> set (dropWhile is_ws l)" by simp
  then show "x \<in> set l" by (rule set_dropWhileD)
qed

lemma parseEnvLine_chars:
  assumes "parseEnvLine l = Some (k, v)"
  shows "set k \<subseteq> set l \<and> set v \<subseteq> set l"
proof -
  let ?t = "trim l"
  from assms have k: "k = takeWhile (\<lambda>c. c \<noteq> CHR ''='') ?t"
    and v: "v = tl (dropWhile (\<lambda>c. c \<noteq> CHR ''='') ?t)"
    by (auto simp: parseEnvLine_def Let_def split: if_splits)
  have "set k \<subseteq> set ?t" unfolding k by (meson set_takeWhileD subsetI)
  moreover have "set v \<subseteq> set ?t" unfolding v
    by (metis list.sel(2) list.set_sel(2) set_dropWhileD subsetI)
  ultimately show ?thesis using set_trim [of l] by blast
qed


lemma envMap_set_nl_free:
  "nl_free m \<Longrightarrow> CHR 0x0A \<notin> set k \<Longrightarrow> CHR 0x0A \<notin> set v \<Longrightarrow> nl_free (envMap_set m k v)"
  by (auto simp: nl_free_def envMap_set_def)

lemma fold_env_nl_free:
  "nl_free m \<Longrightarrow> \<forall>l\<in>set ls. CHR 0x0A \<notin> set l \<Longrightarrow>
   nl_free (fold (\<lambda>line acc. case parseEnvLine line of None \<Rightarrow> acc
                        | Some kv \<Rightarrow> envMap_set acc (fst kv) (snd kv)) ls m)"
proof (induction ls arbitrary: m)
  case Nil
  then show ?case by simp
next
  case (Cons l ls)
  show ?case
  proof (cases "parseEnvLine l")
    case None
    then show ?thesis using Cons by simp
  next
    case (Some kv)
    then have "parseEnvLine l = Some (fst kv, snd kv)" by simp
    from parseEnvLine_chars [OF this] Cons.prems
    have "nl_free (envMap_set m (fst kv) (snd kv))"
      by (intro envMap_set_nl_free) auto
    then show ?thesis using Cons Some by simp
  qed
qed

lemma mergedEnvMap_nl_free: "nl_free (mergedEnvMap a b)"
  unfolding mergedEnvMap_def parseEnvInto_def
  by (intro fold_env_nl_free) (auto simp: nl_free_def split_nl_no_nl)

lemma mergedEnvMap_lines:
  assumes "mergedEnvMap a b \<noteq> []"
  shows "split_nl (mergeEnvironmentVariables a b) = map env_line (mergedEnvMap a b)"
proof -
  have "\<forall>l\<in>set (map env_line (mergedEnvMap a b)). CHR 0x0A \<notin> set l"
    using mergedEnvMap_nl_free [of a b] by (auto simp: nl_free_def env_line_def)
  then show ?thesis using assms
    by (simp add: mergeEnvironmentVariables_def split_join_nl)
qed

text \<open>Claim C5, as stated, fails: with an \<^verbatim>\<open>env\<close> object that contributes no line, the
  free-text block is kept as it is, two lines for the key \<^verbatim>\<open>A\<close> included, while merging it
  with the empty text would leave the single line \<^verbatim>\<open>A=2\<close>.\<close>

theorem C5_counterexample:
  "migratedEnvironmentVariables (Some (JStr ''A=1\<newline>A=2'')) (Some (JObj [])) = Inr (JStr ''A=1\<newline>A=2'')
   \<and> mergeEnvironmentVariables ''A=1\<newline>A=2'' (convertEnvObjectToString (Some (JObj []))) = ''A=2''"
  by (simp add: migratedEnvironmentVariables_def mergeEnvironmentVariables_def mergedEnvMap_def
      parseEnvInto_def parseEnvLine_def trim_def is_ws_def envMap_set_def env_line_def)

text \<open>Claim C5, amended: when the structured \<^verbatim>\<open>env\<close> value is an object that converts to
  a non-empty text (and the free-text value is a string, or nullish and read as empty),
  the migrated \<^verbatim>\<open>environmentVariables\<close> is the merge of the free-text block with that text;
  otherwise the free-text value is kept verbatim.  The merge renders one line per key of
  the merged map, whose keys are distinct; a key that the second (structured) text
  defines has the value of its last entry there, and any other key keeps the value of
  its last entry in the free-text block.\<close>

theorem C5_env_merge_amended:
  "(is_object_type env \<and> convertEnvObjectToString env \<noteq> []
      \<and> nullish_or environmentVariables (Some (JStr [])) = Some (JStr existing)
     \<longrightarrow> migratedEnvironmentVariables environmentVariables env
          = Inr (JStr (mergeEnvironmentVariables existing (convertEnvObjectToString env))))
   \<and> (\<not> (is_object_type env \<and> convertEnvObjectToString env \<noteq> [])
      \<and> nullish_or environmentVariables (Some (JStr [])) = Some kept
     \<longrightarrow> migratedEnvironmentVariables environmentVariables env = Inr kept)
   \<and> mergeEnvironmentVariables existing additional
        = join_nl (map env_line (mergedEnvMap existing additional))
   \<and> (mergedEnvMap existing additional \<noteq> []
     \<longrightarrow> split_nl (mergeEnvironmentVariables existing additional)
          = map env_line (mergedEnvMap existing additional))
   \<and> distinct (map fst (mergedEnvMap existing additional))
   \<and> (map_of (rev (envEntries additional)) k = Some v
     \<longrightarrow> map_of (mergedEnvMap existing additional) k = Some v)
   \<and> (map_of (rev (envEntries additional)) k = None
     \<longrightarrow> map_of (mergedEnvMap existing additional) k = map_of (rev (envEntries existing)) k)"
proof -
  have "mergeEnvironmentVariables existing additional
        = join_nl (map env_line (mergedEnvMap existing additional))"
    by (simp add: mergeEnvironmentVariables_def)
  moreover have "mergedEnvMap existing additional \<noteq> []
     \<longrightarrow> split_nl (mergeEnvironmentVariables existing additional)
          = map env_line (mergedEnvMap existing additional)"
    by (simp add: mergedEnvMap_lines)
  ultimately show ?thesis
    by (auto simp: migratedEnvironmentVariables_def mergedEnvMap_distinct mergedEnvMap_map_of)
qed

text \<open>Claim C5, amended, at a concrete legacy file: the key \<^verbatim>\<open>API_KEY\<close> is in both sources.\<close>

theorem C5_witness:
  "is_object_type (Some (JObj [(''API_KEY'', JStr ''new''), (''MODEL'', JStr ''opus'')]))
   \<and> convertEnvObjectToString (Some (JObj [(''API_KEY'', JStr ''new''), (''MODEL'', JStr ''opus'')])) = ''API_KEY=new\<newline>MODEL=opus''
   \<and> migratedEnvironmentVariables (Some (JStr ''# keys\<newline>API_KEY=old\<newline>DEBUG=1''))
        (Some (JObj [(''API_KEY'', JStr ''new''), (''MODEL'', JStr ''opus'')]))
      = Inr (JStr ''API_KEY=new\<newline>DEBUG=1\<newline>MODEL=opus'')
   \<and> map_of (rev (envEntries ''API_KEY=new\<newline>MODEL=opus'')) ''API_KEY'' = Some ''new''
   \<and> map_of (mergedEnvMap ''# keys\<newline>API_KEY=old\<newline>DEBUG=1'' ''API_KEY=new\<newline>MODEL=opus'') ''API_KEY'' = Some ''new''
   \<and> map_of (rev (envEntries ''API_KEY=new\<newline>MODEL=opus'')) ''DEBUG'' = None
   \<and> map_of (mergedEnvMap ''# keys\<newline>API_KEY=old\<newline>DEBUG=1'' ''API_KEY=new\<newline>MODEL=opus'') ''DEBUG'' = Some ''1''
   \<and> nullish_or None (Some (JStr [])) = Some (JStr [])
   \<and> migratedEnvironmentVariables None None = Inr (JStr [])"
  using C5_env_merge_amended
    [of "Some (JObj [(''API_KEY'', JStr ''new''), (''MODEL'', JStr ''opus'')])"
        "Some (JStr ''# keys\<newline>API_KEY=old\<newline>DEBUG=1'')"
        "''# keys\<newline>API_KEY=old\<newline>DEBUG=1''" "JStr []"
        "''API_KEY=new\<newline>MODEL=opus''" "''API_KEY''" "''new''"]
    C5_env_merge_amended
    [of None None "[]" "JStr []" "''API_KEY=new\<newline>MODEL=opus''" "''DEBUG''" "''1''"]
  by (simp add: env_line_def mergeEnvironmentVariables_def mergedEnvMap_def
      parseEnvInto_def parseEnvLine_def trim_def is_ws_def envMap_set_def envEntries_def)

section \<open>Properties of the blocked-command normalisation and of the permission rules\<close>

lemma all_ws_dropWhile: "(\<forall>x\<in>set (dropWhile is_ws s). is_ws x) = (dropWhile is_ws s = [])"
proof (cases "dropWhile is_ws s = []")
  case True
  then show ?thesis by (metis empty_iff empty_set)
next
  case False
  then have "hd (dropWhile is_ws s) \<in> set (dropWhile is_ws s)" by simp
  moreover have "\<not> is_ws (hd (dropWhile is_ws s))" using False hd_dropWhile by blast
  ultimately show ?thesis using False by blast
qed

lemma trim_Nil_iff: "(trim s = []) = blank s"
proof -
  have "(trim s = []) = (\<forall>x\<in>set (dropWhile is_ws s). is_ws x)"
    by (simp add: trim_def dropWhile_eq_Nil_conv)
  also have "\<dots> = (dropWhile is_ws s = [])" by (rule all_ws_dropWhile)
  also have "\<dots> = blank s" by (simp add: blank_def dropWhile_eq_Nil_conv list_all_iff)
  finally show ?thesis .
qed

lemma filter_trim_spec:
  "filter (\<lambda>item. item \<noteq> []) (map trim ss) = map trim (filter (\<lambda>s. \<not> blank s) ss)"
  by (induction ss) (auto simp: trim_Nil_iff)

lemma normalizeCommandList_spec:
  "normalizeCommandList v dflt = spec_validated_or_defaulted v dflt"
  by (cases "(v, dflt)" rule: normalizeCommandList.cases)
     (simp_all add: spec_cleaned_entries_def filter_trim_spec)





text \<open>Claim C9: a flat list goes to the \<^verbatim>\<open>unix\<close> bucket as its string entries, blank ones
  removed and each trimmed, with the \<^verbatim>\<open>windows\<close> bucket defaulted; the list
  \<^verbatim>\<open>["rm -rf", "  "]\<close> gives \<^verbatim>\<open>["rm -rf"]\<close>; a platform-keyed object has each bucket
  validated (when it is a list) or defaulted (otherwise), independently.\<close>

theorem C9_normalizeBlockedCommands:
  "normalizeBlockedCommands defaults (Some (JArr xs)) =
     \<lparr>unix = spec_cleaned_entries xs, windows = windows defaults\<rparr>
   \<and> normalizeBlockedCommands defaults (Some (JArr [JStr ''rm -rf'', JStr ''  ''])) =
     \<lparr>unix = [''rm -rf''], windows = windows defaults\<rparr>
   \<and> normalizeBlockedCommands defaults (Some (JObj candidate)) =
     \<lparr>unix = spec_validated_or_defaulted (obj_get candidate ''unix'') (unix defaults),
      windows = spec_validated_or_defaulted (obj_get candidate ''windows'') (windows defaults)\<rparr>"
proof -
  have a: "normalizeBlockedCommands defaults (Some (JArr xs)) =
     \<lparr>unix = spec_cleaned_entries xs, windows = windows defaults\<rparr>" for xs
    using normalizeCommandList_spec [of "Some (JArr xs)" "unix defaults"] by simp
  have b: "spec_cleaned_entries [JStr ''rm -rf'', JStr ''  ''] = [''rm -rf'']"
    by (simp add: spec_cleaned_entries_def blank_def trim_def is_ws_def)
  have c: "normalizeBlockedCommands defaults (Some (JObj candidate)) =
     \<lparr>unix = spec_validated_or_defaulted (obj_get candidate ''unix'') (unix defaults),
      windows = spec_validated_or_defaulted (obj_get candidate ''windows'') (windows defaults)\<rparr>"
    by (simp add: normalizeCommandList_spec)
  show ?thesis using a [of xs] a [of "[JStr ''rm -rf'', JStr ''  '']"] b c by simp
qed

text \<open>Claim C9 at concrete inputs: a flat list with a number and an empty string in it, and
  an object whose \<^verbatim>\<open>unix\<close> bucket is not a list.\<close>

theorem C9_witness:
  "normalizeBlockedCommands \<lparr>unix = [''rm -rf'', ''mkfs''], windows = [''Format-Volume'']\<rparr>
       (Some (JArr [JStr '' dd if= '', JNum 3, JStr '''', JStr ''sudo'']))
     = \<lparr>unix = [''dd if='', ''sudo''], windows = [''Format-Volume'']\<rparr>
   \<and> normalizeBlockedCommands \<lparr>unix = [''rm -rf'', ''mkfs''], windows = [''Format-Volume'']\<rparr>
       (Some (JObj [(''unix'', JStr ''oops''), (''windows'', JArr [JStr '' del '']) ]))
     = \<lparr>unix = [''rm -rf'', ''mkfs''], windows = [''del'']\<rparr>"
  using C9_normalizeBlockedCommands
    [of "\<lparr>unix = [''rm -rf'', ''mkfs''], windows = [''Format-Volume'']\<rparr>"
        "[JStr '' dd if= '', JNum 3, JStr '''', JStr ''sudo'']"
        "[(''unix'', JStr ''oops''), (''windows'', JArr [JStr '' del '']) ]"]
  by (simp add: spec_cleaned_entries_def blank_def trim_def is_ws_def obj_get_def)

section \<open>Clearing the legacy blob\<close>

lemma obj_get_set: "obj_get (obj_set obj k v) k' = (if k' = k then Some v else obj_get obj k')"
proof (cases "k \<in> fst ` set obj")
  case True
  then show ?thesis by (simp add: obj_get_def obj_set_def map_of_replace)
next
  case False
  then have "map_of obj k = None" by (simp add: map_of_eq_None_iff)
  with False show ?thesis by (simp add: obj_get_def obj_set_def map_add_def split: option.splits)
qed

lemma obj_get_delete: "obj_get (obj_delete obj k) k' = (if k' = k then None else obj_get obj k')"
  unfolding obj_get_def obj_delete_def by (induction obj) auto

lemma cleaned_filter: "cleaned dataJson = filter (\<lambda>kv. fst kv \<notin> set consumedKeys) dataJson"
  unfolding cleaned_def consumedKeys_def obj_delete_def
  by (simp add: conj_commute conj_left_commute cong: filter_cong)

lemma obj_get_cleaned:
  "obj_get (cleaned dataJson) k = (if k \<in> set consumedKeys then None else obj_get dataJson k)"
  unfolding cleaned_def consumedKeys_def by (simp add: obj_get_delete)

text \<open>Claim C8: clearing saves the blob without the keys that \<^verbatim>\<open>clearLegacyDataJson\<close> deletes
  (the three state fields, the two content arrays and \<^verbatim>\<open>migrationVersion\<close>); every other
  entry is kept, in place and with its value, and no file is touched.\<close>

theorem C8_clearLegacyDataJson:
  "blob s = Some dataJson \<and> \<not> saveDataThrows s \<longrightarrow>
     fst (clearLegacyDataJson s) = Inr ()
     \<and> blob (snd (clearLegacyDataJson s)) = Some (cleaned dataJson)
     \<and> files (snd (clearLegacyDataJson s)) = files s
     \<and> cleaned dataJson = filter (\<lambda>kv. fst kv \<notin> set consumedKeys) dataJson
     \<and> (k \<notin> set consumedKeys \<longrightarrow> obj_get (cleaned dataJson) k = obj_get dataJson k)
     \<and> (k \<in> set consumedKeys \<longrightarrow> obj_get (cleaned dataJson) k = None)"
  by (auto simp: clearLegacyDataJson_def loadDataJson_def plugin_saveData_def log_def
      cleaned_filter [symmetric] obj_get_cleaned)

text \<open>Claim C8 on a blob that holds host-owned keys next to consumed ones.\<close>

theorem C8_witness:
  "blob \<lparr>files = Map.empty, folders = {},
         blob = Some [(''lastEnvHash'', JStr ''hash''),
                      (''tabManagerState'', JObj [(''activeTabId'', JStr ''tab-1'')]),
                      (''slashCommands'', JArr []),
                      (''activeConversationId'', JStr ''conv-1'')],
         wmode = (\<lambda>p. WriteOk), saveDataThrows = False, trace = []\<rparr>
     = Some [(''lastEnvHash'', JStr ''hash''),
             (''tabManagerState'', JObj [(''activeTabId'', JStr ''tab-1'')]),
             (''slashCommands'', JArr []),
             (''activeConversationId'', JStr ''conv-1'')]
   \<and> ''tabManagerState'' \<notin> set consumedKeys
   \<and> blob (snd (clearLegacyDataJson
        \<lparr>files = Map.empty, folders = {},
         blob = Some [(''lastEnvHash'', JStr ''hash''),
                      (''tabManagerState'', JObj [(''activeTabId'', JStr ''tab-1'')]),
                      (''slashCommands'', JArr []),
                      (''activeConversationId'', JStr ''conv-1'')],
         wmode = (\<lambda>p. WriteOk), saveDataThrows = False, trace = []\<rparr>))
     = Some [(''tabManagerState'', JObj [(''activeTabId'', JStr ''tab-1'')]),
             (''activeConversationId'', JStr ''conv-1'')]"
  using C8_clearLegacyDataJson
    [of "\<lparr>files = Map.empty, folders = {},
         blob = Some [(''lastEnvHash'', JStr ''hash''),
                      (''tabManagerState'', JObj [(''activeTabId'', JStr ''tab-1'')]),
                      (''slashCommands'', JArr []),
                      (''activeConversationId'', JStr ''conv-1'')],
         wmode = (\<lambda>p. WriteOk), saveDataThrows = False, trace = []\<rparr>"
        "[(''lastEnvHash'', JStr ''hash''),
             (''tabManagerState'', JObj [(''activeTabId'', JStr ''tab-1'')]),
             (''slashCommands'', JArr []),
             (''activeConversationId'', JStr ''conv-1'')]" "''tabManagerState''"]
  by (simp add: consumedKeys_def)

section \<open>The state migration\<close>

subsection \<open>What each call does to the store\<close>

lemma adapter_exists_eff:
  "adapter_exists p s = (files s p \<noteq> None \<or> p \<in> folders s, s\<lparr>trace := trace s @ [Exists p]\<rparr>)"
  by (simp add: adapter_exists_def log_def)

lemma adapter_read_eff:
  "adapter_read p s =
     (case files s p of None \<Rightarrow> Inl (ReadError p) | Some c \<Rightarrow> Inr c, s\<lparr>trace := trace s @ [Read p]\<rparr>)"
  by (simp add: adapter_read_def log_def split: option.splits)

lemma claudianSettings_load_eff:
  assumes "claudianSettings_load d s = (r, s')"
  shows "\<exists>evs. s' = s\<lparr>trace := trace s @ evs\<rparr>
           \<and> (evs = [Exists CLAUDIAN_SETTINGS_PATH]
              \<or> evs = [Exists CLAUDIAN_SETTINGS_PATH, Read CLAUDIAN_SETTINGS_PATH])"
proof (cases "files s CLAUDIAN_SETTINGS_PATH \<noteq> None \<or> CLAUDIAN_SETTINGS_PATH \<in> folders s")
  case False
  then have "s' = s\<lparr>trace := trace s @ [Exists CLAUDIAN_SETTINGS_PATH]\<rparr>"
    using assms by (simp add: claudianSettings_load_def adapter_exists_eff)
  then show ?thesis by blast
next
  case True
  then have "snd (claudianSettings_load d s)
      = s\<lparr>trace := trace s @ [Exists CLAUDIAN_SETTINGS_PATH, Read CLAUDIAN_SETTINGS_PATH]\<rparr>"
    by (simp add: claudianSettings_load_def adapter_exists_eff adapter_read_eff
        split: option.split sum.split)
  then have "s' = s\<lparr>trace := trace s @ [Exists CLAUDIAN_SETTINGS_PATH, Read CLAUDIAN_SETTINGS_PATH]\<rparr>"
    using assms by simp
  then show ?thesis by blast
qed






section \<open>What the content migration keeps\<close>

lemma keeps_refl: "keeps s s"
  by (simp add: keeps_def)

lemma keeps_trans: "keeps s s1 \<Longrightarrow> keeps s1 s2 \<Longrightarrow> keeps s s2"
  by (auto simp: keeps_def)

lemma keeps_log: "keeps s (log e s)"
  by (simp add: keeps_def log_def)

lemma js_prop_not_null: "v \<noteq> JNull \<Longrightarrow> js_prop v k = Inr (prop_of v k)"
  by (cases v) simp_all

lemma adapter_exists_path: "adapter_exists p s = (path_exists s p, log (Exists p) s)"
  by (simp add: adapter_exists_def path_exists_def)

lemma adapter_write_keeps:
  "\<not> path_exists s p \<Longrightarrow> adapter_write p c s = (r, s') \<Longrightarrow> keeps s s'"
  by (auto simp: adapter_write_def keeps_def log_def path_exists_def split: wmode.splits)

lemma migrateCommand_skip:
  "commands_getFilePath d command = Inr path \<Longrightarrow> path_exists s path \<Longrightarrow>
   migrateCommand d command s = (False, log (Exists path) s)"
  by (simp add: migrateCommand_def adapter_exists_path)

lemma migrateConversation_skip:
  "conversation \<noteq> JNull \<Longrightarrow>
   path_exists s (sessions_getFilePath d (prop_of conversation ''id'')) \<Longrightarrow>
   migrateConversation d conversation s
     = (False, log (Exists (sessions_getFilePath d (prop_of conversation ''id''))) s)"
  by (simp add: migrateConversation_def adapter_exists_path js_prop_not_null)

lemma path_exists_log [simp]: "path_exists (log e s) p = path_exists s p"
  by (simp add: path_exists_def log_def)

lemma migrateCommand_keeps: "migrateCommand d command s = (failed, s') \<Longrightarrow> keeps s s'"
proof -
  assume run: "migrateCommand d command s = (failed, s')"
  show ?thesis
  proof (cases "commands_getFilePath d command")
    case (Inl e)
    then show ?thesis using run by (auto simp: migrateCommand_def keeps_log)
  next
    case (Inr path)
    show ?thesis
    proof (cases "path_exists s path")
      case True
      then show ?thesis using run Inr by (auto simp: migrateCommand_skip keeps_log)
    next
      case False
      obtain r s2 where w: "adapter_write path (CommandText command) (log (Exists path) s) = (r, s2)"
        by (cases "adapter_write path (CommandText command) (log (Exists path) s)")
      from False have "keeps (log (Exists path) s) s2"
        using adapter_write_keeps [OF _ w] by simp
      then have k: "keeps s s2" using keeps_log keeps_trans by blast
      have "s' = s2 \<or> s' = log CaughtItemError s2"
        using run Inr False w
        by (auto simp: migrateCommand_def adapter_exists_path commands_save_def split: sum.splits)
      then show ?thesis using k keeps_log keeps_trans by blast
    qed
  qed
qed

lemma migrateConversation_keeps:
  "migrateConversation d conversation s = (failed, s') \<Longrightarrow> keeps s s'"
proof -
  assume run: "migrateConversation d conversation s = (failed, s')"
  show ?thesis
  proof (cases "conversation = JNull")
    case True
    then show ?thesis using run by (auto simp: migrateConversation_def keeps_log)
  next
    case nn: False
    let ?path = "sessions_getFilePath d (prop_of conversation ''id'')"
    show ?thesis
    proof (cases "path_exists s ?path")
      case True
      then show ?thesis using run nn by (auto simp: migrateConversation_skip keeps_log)
    next
      case False
      obtain r s2 where w: "adapter_write ?path (SessionText conversation) (log (Exists ?path) s) = (r, s2)"
        by (cases "adapter_write ?path (SessionText conversation) (log (Exists ?path) s)")
      from False have "keeps (log (Exists ?path) s) s2"
        using adapter_write_keeps [OF _ w] by simp
      then have k: "keeps s s2" using keeps_log keeps_trans by blast
      have "s' = s2 \<or> s' = log CaughtItemError s2"
        using run nn False w
        by (auto simp: migrateConversation_def adapter_exists_path js_prop_not_null
            sessions_saveConversation_def split: sum.splits)
      then show ?thesis using k keeps_log keeps_trans by blast
    qed
  qed
qed

lemma migrateEach_keeps:
  "(\<And>item s failed s'. step item s = (failed, s') \<Longrightarrow> keeps s s') \<Longrightarrow>
   migrateEach step items h s = (h', s') \<Longrightarrow> keeps s s'"
proof (induction items arbitrary: h s)
  case Nil
  then show ?case by (simp add: keeps_refl)
next
  case (Cons item items)
  obtain failed s1 where st: "step item s = (failed, s1)" by (cases "step item s")
  then have "keeps s s1" using Cons.prems(1) by blast
  moreover have "migrateEach step items (h \<or> failed) s1 = (h', s')"
    using Cons.prems(2) st by simp
  then have "keeps s1 s'" using Cons.IH Cons.prems(1) by blast
  ultimately show ?case using keeps_trans by blast
qed

lemma migrateLegacyDataJsonContent_keeps:
  "migrateLegacyDataJsonContent d dataJson s = (h, s') \<Longrightarrow> keeps s s'"
proof -
  assume run: "migrateLegacyDataJsonContent d dataJson s = (h, s')"
  obtain h1 s1 where a: "migrateEach (migrateCommand d) (contentItems dataJson ''slashCommands'') False s = (h1, s1)"
    by (cases "migrateEach (migrateCommand d) (contentItems dataJson ''slashCommands'') False s")
  with run have b: "migrateEach (migrateConversation d) (contentItems dataJson ''conversations'') h1 s1 = (h, s')"
    by (simp add: migrateLegacyDataJsonContent_def)
  have "keeps s s1" using migrateEach_keeps [OF _ a] migrateCommand_keeps by blast
  moreover have "keeps s1 s'" using migrateEach_keeps [OF _ b] migrateConversation_keeps by blast
  ultimately show ?thesis using keeps_trans by blast
qed

section \<open>Re-entrancy of the content migration\<close>

lemma log_log: "log e (s\<lparr>trace := trace s @ evs\<rparr>) = s\<lparr>trace := trace s @ evs @ [e]\<rparr>"
  by (simp add: log_def)

lemma log_as_upd: "log e s = s\<lparr>trace := trace s @ [e]\<rparr>"
  by (simp add: log_def)

lemma path_exists_trace [simp]: "path_exists (s\<lparr>trace := t\<rparr>) p = path_exists s p"
  by (simp add: path_exists_def)

lemma migrateEach_commands_skip:
  "\<forall>c\<in>set cs. \<exists>path. commands_getFilePath d c = Inr path \<and> path_exists s path \<Longrightarrow>
   \<exists>evs. migrateEach (migrateCommand d) cs h s = (h, s\<lparr>trace := trace s @ evs\<rparr>)
        \<and> (\<forall>e\<in>set evs. \<exists>p. e = Exists p)"
proof (induction cs arbitrary: s h)
  case Nil
  have "migrateEach (migrateCommand d) [] h s = (h, s\<lparr>trace := trace s @ []\<rparr>)" by simp
  then show ?case by (metis empty_iff empty_set)
next
  case (Cons c cs)
  then obtain path where p: "commands_getFilePath d c = Inr path" "path_exists s path" by auto
  let ?s1 = "log (Exists path) s"
  have "\<forall>c\<in>set cs. \<exists>path. commands_getFilePath d c = Inr path \<and> path_exists ?s1 path"
    using Cons.prems by simp
  from Cons.IH [OF this, of h] obtain evs where
    e: "migrateEach (migrateCommand d) cs h ?s1 = (h, ?s1\<lparr>trace := trace ?s1 @ evs\<rparr>)"
       "\<forall>e\<in>set evs. \<exists>p. e = Exists p" by blast
  have "migrateEach (migrateCommand d) (c # cs) h s = (h, s\<lparr>trace := trace s @ (Exists path # evs)\<rparr>)"
    using e(1) p by (simp add: migrateCommand_skip) (simp add: log_def)
  moreover have "\<forall>e\<in>set (Exists path # evs). \<exists>p. e = Exists p" using e(2) by simp
  ultimately show ?case by blast
qed

lemma migrateEach_conversations_skip:
  "\<forall>c\<in>set cs. c \<noteq> JNull \<and> path_exists s (sessions_getFilePath d (prop_of c ''id'')) \<Longrightarrow>
   \<exists>evs. migrateEach (migrateConversation d) cs h s = (h, s\<lparr>trace := trace s @ evs\<rparr>)
        \<and> (\<forall>e\<in>set evs. \<exists>p. e = Exists p)"
proof (induction cs arbitrary: s h)
  case Nil
  have "migrateEach (migrateConversation d) [] h s = (h, s\<lparr>trace := trace s @ []\<rparr>)" by simp
  then show ?case by (metis empty_iff empty_set)
next
  case (Cons c cs)
  let ?path = "sessions_getFilePath d (prop_of c ''id'')"
  from Cons.prems have p: "c \<noteq> JNull" "path_exists s ?path" by auto
  let ?s1 = "log (Exists ?path) s"
  have "\<forall>c\<in>set cs. c \<noteq> JNull \<and> path_exists ?s1 (sessions_getFilePath d (prop_of c ''id''))"
    using Cons.prems by simp
  from Cons.IH [OF this, of h] obtain evs where
    e: "migrateEach (migrateConversation d) cs h ?s1 = (h, ?s1\<lparr>trace := trace ?s1 @ evs\<rparr>)"
       "\<forall>e\<in>set evs. \<exists>p. e = Exists p" by blast
  have "migrateEach (migrateConversation d) (c # cs) h s
          = (h, s\<lparr>trace := trace s @ (Exists ?path # evs)\<rparr>)"
    using e(1) p by (simp add: migrateConversation_skip) (simp add: log_def)
  moreover have "\<forall>e\<in>set (Exists ?path # evs). \<exists>p. e = Exists p" using e(2) by simp
  ultimately show ?case by blast
qed

lemma content_all_skip:
  assumes "\<forall>c\<in>set (contentItems dataJson ''slashCommands'').
             \<exists>path. commands_getFilePath d c = Inr path \<and> path_exists s path"
      and "\<forall>c\<in>set (contentItems dataJson ''conversations'').
             c \<noteq> JNull \<and> path_exists s (sessions_getFilePath d (prop_of c ''id''))"
  shows "\<exists>evs. migrateLegacyDataJsonContent d dataJson s = (False, s\<lparr>trace := trace s @ evs\<rparr>)
           \<and> (\<forall>e\<in>set evs. \<exists>p. e = Exists p)"
proof -
  from migrateEach_commands_skip [OF assms(1), of False] obtain evs1 where
    a: "migrateEach (migrateCommand d) (contentItems dataJson ''slashCommands'') False s
          = (False, s\<lparr>trace := trace s @ evs1\<rparr>)" "\<forall>e\<in>set evs1. \<exists>p. e = Exists p" by blast
  let ?s1 = "s\<lparr>trace := trace s @ evs1\<rparr>"
  have "\<forall>c\<in>set (contentItems dataJson ''conversations'').
             c \<noteq> JNull \<and> path_exists ?s1 (sessions_getFilePath d (prop_of c ''id''))"
    using assms(2) by simp
  from migrateEach_conversations_skip [OF this, of False] obtain evs2 where
    b: "migrateEach (migrateConversation d) (contentItems dataJson ''conversations'') False ?s1
          = (False, ?s1\<lparr>trace := trace ?s1 @ evs2\<rparr>)" "\<forall>e\<in>set evs2. \<exists>p. e = Exists p" by blast
  have "migrateLegacyDataJsonContent d dataJson s = (False, s\<lparr>trace := trace s @ (evs1 @ evs2)\<rparr>)"
    using a(1) b(1) by (simp add: migrateLegacyDataJsonContent_def)
  moreover have "\<forall>e\<in>set (evs1 @ evs2). \<exists>p. e = Exists p" using a(2) b(2) by auto
  ultimately show ?thesis by blast
qed

lemma emitted_upd [simp]: "emitted s (s\<lparr>trace := trace s @ evs\<rparr>) = evs"
  by (simp add: emitted_def)

text \<open>Claim C7: an item whose target path exists is skipped: the only effect of its turn is
  the existence check, and the \<^verbatim>\<open>catch\<close> block does not run (the turn reports no failure).
  Whatever the blob holds, every file that was there before the content migration has
  the same text after it.  When the target of every item exists, the migration returns
  \<^verbatim>\<open>hadErrors = false\<close>, leaves every file as it was and attempts no write.\<close>

theorem C7_content_reentrancy:
  "(commands_getFilePath d command = Inr path \<and> path_exists s path \<longrightarrow>
      migrateCommand d command s = (False, log (Exists path) s))
   \<and> (conversation \<noteq> JNull
       \<and> path_exists s (sessions_getFilePath d (prop_of conversation ''id'')) \<longrightarrow>
      migrateConversation d conversation s
        = (False, log (Exists (sessions_getFilePath d (prop_of conversation ''id''))) s))
   \<and> (files s p \<noteq> None \<longrightarrow>
      files (snd (migrateLegacyDataJsonContent d dataJson s)) p = files s p)
   \<and> ((\<forall>c\<in>set (contentItems dataJson ''slashCommands'').
          \<exists>target. commands_getFilePath d c = Inr target \<and> path_exists s target)
       \<and> (\<forall>c\<in>set (contentItems dataJson ''conversations'').
          c \<noteq> JNull \<and> path_exists s (sessions_getFilePath d (prop_of c ''id''))) \<longrightarrow>
      fst (migrateLegacyDataJsonContent d dataJson s) = False
      \<and> files (snd (migrateLegacyDataJsonContent d dataJson s)) = files s
      \<and> (\<forall>e\<in>set (emitted s (snd (migrateLegacyDataJsonContent d dataJson s))).
            \<not> is_write e \<and> e \<noteq> CaughtItemError))"
proof -
  have a: "commands_getFilePath d command = Inr path \<and> path_exists s path \<longrightarrow>
      migrateCommand d command s = (False, log (Exists path) s)"
    by (simp add: migrateCommand_skip)
  have b: "conversation \<noteq> JNull
       \<and> path_exists s (sessions_getFilePath d (prop_of conversation ''id'')) \<longrightarrow>
      migrateConversation d conversation s
        = (False, log (Exists (sessions_getFilePath d (prop_of conversation ''id''))) s)"
    by (simp add: migrateConversation_skip)
  have "keeps s (snd (migrateLegacyDataJsonContent d dataJson s))"
    using migrateLegacyDataJsonContent_keeps [of d dataJson s] by (simp add: prod_eq_iff)
  then have c: "files s p \<noteq> None \<longrightarrow>
      files (snd (migrateLegacyDataJsonContent d dataJson s)) p = files s p"
    by (simp add: keeps_def)
  have e: "(\<forall>c\<in>set (contentItems dataJson ''slashCommands'').
          \<exists>target. commands_getFilePath d c = Inr target \<and> path_exists s target)
       \<and> (\<forall>c\<in>set (contentItems dataJson ''conversations'').
          c \<noteq> JNull \<and> path_exists s (sessions_getFilePath d (prop_of c ''id''))) \<longrightarrow>
      fst (migrateLegacyDataJsonContent d dataJson s) = False
      \<and> files (snd (migrateLegacyDataJsonContent d dataJson s)) = files s
      \<and> (\<forall>e\<in>set (emitted s (snd (migrateLegacyDataJsonContent d dataJson s))).
            \<not> is_write e \<and> e \<noteq> CaughtItemError)"
  proof (intro impI, elim conjE)
    assume h1: "\<forall>c\<in>set (contentItems dataJson ''slashCommands'').
          \<exists>target. commands_getFilePath d c = Inr target \<and> path_exists s target"
      and h2: "\<forall>c\<in>set (contentItems dataJson ''conversations'').
          c \<noteq> JNull \<and> path_exists s (sessions_getFilePath d (prop_of c ''id''))"
    from content_all_skip [OF h1 h2] obtain evs where
      r: "migrateLegacyDataJsonContent d dataJson s = (False, s\<lparr>trace := trace s @ evs\<rparr>)"
         "\<forall>e\<in>set evs. \<exists>p. e = Exists p" by blast
    have "\<forall>e\<in>set evs. \<not> is_write e \<and> e \<noteq> CaughtItemError"
      using r(2) by fastforce
    then show "fst (migrateLegacyDataJsonContent d dataJson s) = False
      \<and> files (snd (migrateLegacyDataJsonContent d dataJson s)) = files s
      \<and> (\<forall>e\<in>set (emitted s (snd (migrateLegacyDataJsonContent d dataJson s))).
            \<not> is_write e \<and> e \<noteq> CaughtItemError)"
      by (simp add: r(1))
  qed
  from a b c e show ?thesis by blast
qed

text \<open>Claim C7 on a vault that already holds the files of the command and of the conversation
  of the blob, both edited since.\<close>

theorem C7_witness:
  "commands_getFilePath mockDeps reviewCommand = Inr ''.claude/commands/review.md''
   \<and> path_exists migratedVault ''.claude/commands/review.md''
   \<and> migrateCommand mockDeps reviewCommand migratedVault
       = (False, log (Exists ''.claude/commands/review.md'') migratedVault)
   \<and> firstConversation \<noteq> JNull
   \<and> path_exists migratedVault (sessions_getFilePath mockDeps (prop_of firstConversation ''id''))
   \<and> files migratedVault ''.claude/commands/review.md'' \<noteq> None
   \<and> files (snd (migrateLegacyDataJsonContent mockDeps blobWithContent migratedVault))
        ''.claude/commands/review.md'' = files migratedVault ''.claude/commands/review.md''
   \<and> contentItems blobWithContent ''slashCommands'' = [reviewCommand]
   \<and> contentItems blobWithContent ''conversations'' = [firstConversation]
   \<and> fst (migrateLegacyDataJsonContent mockDeps blobWithContent migratedVault) = False
   \<and> files (snd (migrateLegacyDataJsonContent mockDeps blobWithContent migratedVault))
       = files migratedVault"
proof -
  note t = C7_content_reentrancy [of mockDeps reviewCommand "''.claude/commands/review.md''"
      migratedVault firstConversation "''.claude/commands/review.md''" blobWithContent]
  have a: "commands_getFilePath mockDeps reviewCommand = Inr ''.claude/commands/review.md''"
    by code_simp
  have b: "path_exists migratedVault ''.claude/commands/review.md''" by code_simp
  have c: "firstConversation \<noteq> JNull" by code_simp
  have e: "path_exists migratedVault (sessions_getFilePath mockDeps (prop_of firstConversation ''id''))"
    by code_simp
  have f: "files migratedVault ''.claude/commands/review.md'' \<noteq> None" by code_simp
  have items: "contentItems blobWithContent ''slashCommands'' = [reviewCommand]"
      "contentItems blobWithContent ''conversations'' = [firstConversation]"
    by code_simp+
  have g: "\<forall>c\<in>set (contentItems blobWithContent ''slashCommands'').
          \<exists>target. commands_getFilePath mockDeps c = Inr target \<and> path_exists migratedVault target"
    using a b by (simp add: items)
  have h: "\<forall>c\<in>set (contentItems blobWithContent ''conversations'').
          c \<noteq> JNull \<and> path_exists migratedVault (sessions_getFilePath mockDeps (prop_of c ''id''))"
    using c e by (simp add: items)
  from t a b c e f g h items show ?thesis by blast
qed

section \<open>Traces of the basic operations\<close>

lemma run_of_refl: "run_of s s []"
  by (simp add: run_of_def)

lemma run_of_trans: "run_of s s1 e1 \<Longrightarrow> run_of s1 s2 e2 \<Longrightarrow> run_of s s2 (e1 @ e2)"
  by (simp add: run_of_def)

lemma run_of_log: "run_of s (log e s) [e]"
  by (simp add: run_of_def log_def)

lemma emitted_run_of: "run_of s s' evs \<Longrightarrow> emitted s s' = evs"
  by (simp add: run_of_def emitted_def)

lemma clean_quiet: "clean evs \<Longrightarrow> quiet evs"
  by (auto simp: clean_def quiet_def)

lemma quiet_append [simp]: "quiet (a @ b) = (quiet a \<and> quiet b)"
  by (auto simp: quiet_def)

lemma clean_append [simp]: "clean (a @ b) = (clean a \<and> clean b)"
  by (auto simp: clean_def)

lemma adapter_read_run:
  "adapter_read p s = (r, s') \<Longrightarrow> run_of s s' [Read p] \<and> files s' = files s"
  by (auto simp: adapter_read_def run_of_def log_def split: option.splits)

lemma adapter_exists_run:
  "adapter_exists p s = (b, s') \<Longrightarrow> run_of s s' [Exists p] \<and> files s' = files s"
  by (auto simp: adapter_exists_def run_of_def log_def)

lemma adapter_write_run:
  "adapter_write p c s = (r, s') \<Longrightarrow>
   \<exists>e. run_of s s' [e] \<and> is_write_to p e \<and> \<not> is_saveData e \<and> e \<noteq> CaughtItemError
       \<and> (r = Inr () \<longrightarrow> \<not> is_failure e) \<and> (r \<noteq> Inr () \<longrightarrow> e = WriteFailed p \<and> files s' = files s)
       \<and> (\<forall>q. q \<noteq> p \<longrightarrow> files s' q = files s q)
       \<and> (r = Inr () \<or> r = Inl (WriteError p))"
  by (cases "wmode s p") (auto simp: adapter_write_def run_of_def log_def)

lemma claudianSettings_load_run:
  assumes "claudianSettings_load d s = (r, s')"
  shows "\<exists>evs. run_of s s' evs \<and> clean evs \<and> files s' = files s"
proof -
  from claudianSettings_load_eff [OF assms] obtain evs where
    e: "s' = s\<lparr>trace := trace s @ evs\<rparr>"
       "evs = [Exists CLAUDIAN_SETTINGS_PATH]
        \<or> evs = [Exists CLAUDIAN_SETTINGS_PATH, Read CLAUDIAN_SETTINGS_PATH]" by blast
  from e(2) have "clean evs" by (auto simp: clean_def)
  moreover have "run_of s s' evs \<and> files s' = files s" using e(1) by (simp add: run_of_def)
  ultimately show ?thesis by blast
qed

lemma migrateFromDataJson_run:
  assumes "migrateFromDataJson d dataJson s = (r, s')"
  shows "\<exists>evs. run_of s s' evs \<and> quiet evs \<and> (r = Inr () \<longrightarrow> clean evs)"
proof (cases "claudianSettings_load d s")
  case (Pair rl s1)
  from claudianSettings_load_run [OF Pair] obtain e1 where
    l: "run_of s s1 e1" "clean e1" by blast
  show ?thesis
  proof (cases rl)
    case (Inl err)
    then have "s' = s1" "r \<noteq> Inr ()" using assms Pair by (auto simp: migrateFromDataJson_def)
    then show ?thesis using l clean_quiet by blast
  next
    case (Inr loaded)
    then have "adapter_write CLAUDIAN_SETTINGS_PATH (JsonText (JObj (mergedState dataJson loaded))) s1 = (r, s')"
      using assms Pair by (simp add: migrateFromDataJson_def claudianSettings_save_def)
    from adapter_write_run [OF this] obtain e where
      w: "run_of s1 s' [e]" "\<not> is_saveData e" "e \<noteq> CaughtItemError" "r = Inr () \<longrightarrow> \<not> is_failure e"
      by blast
    have "run_of s s' (e1 @ [e])" using l(1) w(1) by (rule run_of_trans)
    moreover have "quiet (e1 @ [e])" using l(2) w(2,3) clean_quiet by (simp add: quiet_def)
    moreover have "r = Inr () \<longrightarrow> clean (e1 @ [e])" using l(2) w(2,4) by (simp add: clean_def)
    ultimately show ?thesis by blast
  qed
qed

section \<open>The anatomy of the split migration\<close>

lemma parseJson_error: "parseJson content = Inl e \<Longrightarrow> e = SyntaxError"
  by (cases content) simp_all

lemma hasClaudianFields_error: "hasClaudianFields old = Inl e \<Longrightarrow> e = TypeError"
  by (simp add: hasClaudianFields_def split: if_splits)

lemma migratedEnvironmentVariables_error:
  "migratedEnvironmentVariables a b = Inl e \<Longrightarrow> e = TypeError"
  by (auto simp: migratedEnvironmentVariables_def Let_def split: if_splits json.splits)

lemma split_anatomy:
  assumes "migrateFromOldSettingsJson d s = (r, s')"
  shows "(s' = log (Read CC_SETTINGS_PATH) s \<and> r \<noteq> Inl VerificationError
          \<and> (r = Inr () \<longrightarrow>
               (\<exists>old. files s CC_SETTINGS_PATH = Some (JsonText old)
                      \<and> hasClaudianFields old = Inr False)))
       \<or> (\<exists>old ev rw s2.
             files s CC_SETTINGS_PATH = Some (JsonText old)
             \<and> hasClaudianFields old = Inr True
             \<and> migratedEnvironmentVariables (prop_of old ''environmentVariables'')
                  (prop_of old ''env'') = Inr ev
             \<and> adapter_write CLAUDIAN_SETTINGS_PATH (JsonText (JObj (claudianFields d old ev)))
                  (log (Read CC_SETTINGS_PATH) s) = (rw, s2)
             \<and> ((\<exists>e. rw = Inl e \<and> r = Inl e \<and> s' = s2)
                \<or> (rw = Inr ()
                   \<and> (\<exists>rl s3. claudianSettings_load d s2 = (rl, s3)
                        \<and> ((\<exists>e. rl = Inl e \<and> r = Inl e \<and> s' = s3)
                           \<or> (\<exists>saved. rl = Inr saved \<and> obj_get saved ''userName'' = None
                                 \<and> r = Inl VerificationError \<and> s' = s3)
                           \<or> (\<exists>saved. rl = Inr saved \<and> obj_get saved ''userName'' \<noteq> None
                                 \<and> adapter_write CC_SETTINGS_PATH
                                      (JsonText (JObj (ccSettingsFor d old))) s3 = (r, s')))))))"
proof (cases "files s CC_SETTINGS_PATH")
  case None
  then show ?thesis using assms
    by (auto simp: migrateFromOldSettingsJson_def adapter_read_def)
next
  case (Some content)
  show ?thesis
  proof (cases "parseJson content")
    case (Inl e)
    then show ?thesis using assms Some parseJson_error [OF Inl]
      by (auto simp: migrateFromOldSettingsJson_def adapter_read_def)
  next
    case (Inr old)
    then have content: "content = JsonText old" by (cases content) simp_all
    show ?thesis
    proof (cases "hasClaudianFields old")
      case (Inl e)
      then show ?thesis using assms Some Inr hasClaudianFields_error [OF Inl]
        by (auto simp: migrateFromOldSettingsJson_def adapter_read_def)
    next
      case has: (Inr b)
      show ?thesis
      proof (cases b)
        case False
        then show ?thesis using assms Some Inr has content
          by (auto simp: migrateFromOldSettingsJson_def adapter_read_def)
      next
        case True
        show ?thesis
        proof (cases "migratedEnvironmentVariables (prop_of old ''environmentVariables'')
                  (prop_of old ''env'')")
          case (Inl e)
          then show ?thesis using assms Some Inr has True migratedEnvironmentVariables_error [OF Inl]
            by (auto simp: migrateFromOldSettingsJson_def adapter_read_def)
        next
          case env: (Inr ev)
          obtain rw s2 where w: "adapter_write CLAUDIAN_SETTINGS_PATH
              (JsonText (JObj (claudianFields d old ev))) (log (Read CC_SETTINGS_PATH) s) = (rw, s2)"
            by (cases "adapter_write CLAUDIAN_SETTINGS_PATH
              (JsonText (JObj (claudianFields d old ev))) (log (Read CC_SETTINGS_PATH) s)")
          obtain rl s3 where l: "claudianSettings_load d s2 = (rl, s3)"
            by (cases "claudianSettings_load d s2")
          have rest: "(\<exists>e. rw = Inl e \<and> r = Inl e \<and> s' = s2)
                \<or> (rw = Inr ()
                   \<and> (\<exists>rl s3. claudianSettings_load d s2 = (rl, s3)
                        \<and> ((\<exists>e. rl = Inl e \<and> r = Inl e \<and> s' = s3)
                           \<or> (\<exists>saved. rl = Inr saved \<and> obj_get saved ''userName'' = None
                                 \<and> r = Inl VerificationError \<and> s' = s3)
                           \<or> (\<exists>saved. rl = Inr saved \<and> obj_get saved ''userName'' \<noteq> None
                                 \<and> adapter_write CC_SETTINGS_PATH
                                      (JsonText (JObj (ccSettingsFor d old))) s3 = (r, s')))))"
          proof (cases rw)
            case (Inl e)
            then have "r = Inl e \<and> s' = s2" using assms Some Inr has True env w
              by (simp add: migrateFromOldSettingsJson_def adapter_read_def claudianSettings_save_def)
            then show ?thesis using Inl by simp
          next
            case rwok: (Inr u)
            show ?thesis
            proof (cases rl)
              case (Inl e)
              then have "r = Inl e \<and> s' = s3" using assms Some Inr has True env w l rwok
                by (simp add: migrateFromOldSettingsJson_def adapter_read_def claudianSettings_save_def)
              then show ?thesis using Inl rwok l by simp
            next
              case (Inr saved)
              show ?thesis
              proof (cases "obj_get saved ''userName'' = None")
                case True
                then have "r = Inl VerificationError \<and> s' = s3"
                  using assms Some \<open>parseJson content = Inr old\<close> has \<open>b\<close> env w l rwok Inr
                  by (simp add: migrateFromOldSettingsJson_def adapter_read_def claudianSettings_save_def)
                then show ?thesis using Inr rwok l True by simp
              next
                case False
                then have "adapter_write CC_SETTINGS_PATH
                                      (JsonText (JObj (ccSettingsFor d old))) s3 = (r, s')"
                  using assms Some \<open>parseJson content = Inr old\<close> has \<open>b\<close> env w l rwok Inr
                  by (auto simp: migrateFromOldSettingsJson_def adapter_read_def claudianSettings_save_def
                      ccSettings_save_def split: if_splits)
                then show ?thesis using Inr rwok l False by simp
              qed
            qed
          qed
          from Some content have f: "files s CC_SETTINGS_PATH = Some (JsonText old)" by simp
          from has True have h: "hasClaudianFields old = Inr True" by simp
          show ?thesis
            apply (rule disjI2)
            apply (rule exI [of _ old])
            apply (rule exI [of _ ev])
            apply (rule exI [of _ rw])
            apply (rule exI [of _ s2])
            using f h env w rest apply (intro conjI)
                apply assumption+
            done
        qed
      qed
    qed
  qed
qed

section \<open>The shapes of a run of the split migration\<close>

lemma paths_differ [simp]:
  "CLAUDIAN_SETTINGS_PATH \<noteq> CC_SETTINGS_PATH" "CC_SETTINGS_PATH \<noteq> CLAUDIAN_SETTINGS_PATH"
  by (simp_all add: CLAUDIAN_SETTINGS_PATH_def CC_SETTINGS_PATH_def)

lemma is_write_to_other: "is_write_to p e \<Longrightarrow> q \<noteq> p \<Longrightarrow> \<not> is_write_to q e"
  by (cases e) auto

lemma claudianSettings_load_events:
  assumes "claudianSettings_load d s = (r, s')"
  shows "\<exists>rd. run_of s s' (Exists CLAUDIAN_SETTINGS_PATH # rd) \<and> files s' = files s
              \<and> (rd = [] \<or> rd = [Read CLAUDIAN_SETTINGS_PATH])"
proof -
  from claudianSettings_load_eff [OF assms] obtain evs where
    e: "s' = s\<lparr>trace := trace s @ evs\<rparr>"
       "evs = [Exists CLAUDIAN_SETTINGS_PATH]
        \<or> evs = [Exists CLAUDIAN_SETTINGS_PATH, Read CLAUDIAN_SETTINGS_PATH]" by blast
  then show ?thesis by (auto simp: run_of_def)
qed

text \<open>The shapes a run of the split migration can take.\<close>

lemma split_shapes:
  assumes "migrateFromOldSettingsJson d s = (r, s')"
  shows "(run_of s s' [Read CC_SETTINGS_PATH] \<and> files s' = files s)
       \<or> (r \<noteq> Inr () \<and> files s' = files s
           \<and> run_of s s' [Read CC_SETTINGS_PATH, WriteFailed CLAUDIAN_SETTINGS_PATH])
       \<or> (\<exists>w1 rd. r \<noteq> Inr () \<and> files s' CC_SETTINGS_PATH = files s CC_SETTINGS_PATH
           \<and> is_write_to CLAUDIAN_SETTINGS_PATH w1 \<and> \<not> is_failure w1 \<and> \<not> is_saveData w1
           \<and> (rd = [] \<or> rd = [Read CLAUDIAN_SETTINGS_PATH])
           \<and> run_of s s' ([Read CC_SETTINGS_PATH, w1, Exists CLAUDIAN_SETTINGS_PATH] @ rd))
       \<or> (\<exists>w1 rd w2. is_write_to CLAUDIAN_SETTINGS_PATH w1 \<and> \<not> is_failure w1 \<and> \<not> is_saveData w1
           \<and> (rd = [] \<or> rd = [Read CLAUDIAN_SETTINGS_PATH])
           \<and> is_write_to CC_SETTINGS_PATH w2 \<and> \<not> is_saveData w2 \<and> w2 \<noteq> CaughtItemError
           \<and> (r = Inr () \<longrightarrow> \<not> is_failure w2)
           \<and> (r = Inr () \<or> r = Inl (WriteError CC_SETTINGS_PATH))
           \<and> (r \<noteq> Inr () \<longrightarrow> files s' CC_SETTINGS_PATH = files s CC_SETTINGS_PATH)
           \<and> run_of s s' ([Read CC_SETTINGS_PATH, w1, Exists CLAUDIAN_SETTINGS_PATH] @ rd @ [w2]))"
proof -
  let ?s1 = "log (Read CC_SETTINGS_PATH) s"
  have r1: "run_of s ?s1 [Read CC_SETTINGS_PATH]" by (rule run_of_log)
  have f1: "files ?s1 = files s" by (simp add: log_def)
  from split_anatomy [OF assms] consider
    (early) "s' = ?s1"
  | (later) old ev rw s2 where
      "adapter_write CLAUDIAN_SETTINGS_PATH (JsonText (JObj (claudianFields d old ev))) ?s1 = (rw, s2)"
      "(\<exists>e. rw = Inl e \<and> r = Inl e \<and> s' = s2)
                \<or> (rw = Inr ()
                   \<and> (\<exists>rl s3. claudianSettings_load d s2 = (rl, s3)
                        \<and> ((\<exists>e. rl = Inl e \<and> r = Inl e \<and> s' = s3)
                           \<or> (\<exists>saved. rl = Inr saved \<and> obj_get saved ''userName'' = None
                                 \<and> r = Inl VerificationError \<and> s' = s3)
                           \<or> (\<exists>saved. rl = Inr saved \<and> obj_get saved ''userName'' \<noteq> None
                                 \<and> adapter_write CC_SETTINGS_PATH
                                      (JsonText (JObj (ccSettingsFor d old))) s3 = (r, s')))))"
    by blast
  then show ?thesis
  proof cases
    case early
    then show ?thesis using r1 f1 by simp
  next
    case later
    from adapter_write_run [OF later(1)] obtain w1 where
      w1: "run_of ?s1 s2 [w1]" "is_write_to CLAUDIAN_SETTINGS_PATH w1" "\<not> is_saveData w1"
          "rw = Inr () \<longrightarrow> \<not> is_failure w1"
          "rw \<noteq> Inr () \<longrightarrow> w1 = WriteFailed CLAUDIAN_SETTINGS_PATH \<and> files s2 = files ?s1"
          "\<forall>q. q \<noteq> CLAUDIAN_SETTINGS_PATH \<longrightarrow> files s2 q = files ?s1 q"
      by blast
    have r2: "run_of s s2 [Read CC_SETTINGS_PATH, w1]"
      using run_of_trans [OF r1 w1(1)] by simp
    have cc2: "files s2 CC_SETTINGS_PATH = files s CC_SETTINGS_PATH" using w1(6) f1 by simp
    from later(2) consider
      (wfail) e where "rw = Inl e" "r = Inl e" "s' = s2"
    | (loaded) rl s3 where "rw = Inr ()" "claudianSettings_load d s2 = (rl, s3)"
        "(\<exists>e. rl = Inl e \<and> r = Inl e \<and> s' = s3)
         \<or> (\<exists>saved. rl = Inr saved \<and> obj_get saved ''userName'' = None
               \<and> r = Inl VerificationError \<and> s' = s3)
         \<or> (\<exists>saved. rl = Inr saved \<and> obj_get saved ''userName'' \<noteq> None
               \<and> adapter_write CC_SETTINGS_PATH (JsonText (JObj (ccSettingsFor d old))) s3 = (r, s'))"
      by blast
    then show ?thesis
    proof cases
      case wfail
      then have "w1 = WriteFailed CLAUDIAN_SETTINGS_PATH" "files s' = files s" "r \<noteq> Inr ()"
        using w1(5) f1 by auto
      then show ?thesis using r2 wfail(3) by simp
    next
      case loaded
      from claudianSettings_load_events [OF loaded(2)] obtain rd where
        rd: "run_of s2 s3 (Exists CLAUDIAN_SETTINGS_PATH # rd)" "files s3 = files s2"
            "rd = [] \<or> rd = [Read CLAUDIAN_SETTINGS_PATH]" by blast
      have r3: "run_of s s3 ([Read CC_SETTINGS_PATH, w1, Exists CLAUDIAN_SETTINGS_PATH] @ rd)"
        using run_of_trans [OF r2 rd(1)] by simp
      have cc3: "files s3 CC_SETTINGS_PATH = files s CC_SETTINGS_PATH" using rd(2) cc2 by simp
      have nf: "\<not> is_failure w1" using w1(4) loaded(1) by simp
      from loaded(3) consider
        (stop) "r \<noteq> Inr ()" "s' = s3"
      | (save)
          "adapter_write CC_SETTINGS_PATH (JsonText (JObj (ccSettingsFor d old))) s3 = (r, s')"
        by auto
      then show ?thesis
      proof cases
        case stop
        have "\<exists>w1 rd. r \<noteq> Inr () \<and> files s' CC_SETTINGS_PATH = files s CC_SETTINGS_PATH
           \<and> is_write_to CLAUDIAN_SETTINGS_PATH w1 \<and> \<not> is_failure w1 \<and> \<not> is_saveData w1
           \<and> (rd = [] \<or> rd = [Read CLAUDIAN_SETTINGS_PATH])
           \<and> run_of s s' ([Read CC_SETTINGS_PATH, w1, Exists CLAUDIAN_SETTINGS_PATH] @ rd)"
          using stop cc3 w1(2,3) nf rd(3) r3 by blast
        then show ?thesis by blast
      next
        case save
        from adapter_write_run [OF save] obtain w2 where
          w2: "run_of s3 s' [w2]" "is_write_to CC_SETTINGS_PATH w2" "\<not> is_saveData w2"
              "w2 \<noteq> CaughtItemError" "r = Inr () \<longrightarrow> \<not> is_failure w2"
              "r \<noteq> Inr () \<longrightarrow> w2 = WriteFailed CC_SETTINGS_PATH \<and> files s' = files s3"
              "\<forall>q. q \<noteq> CC_SETTINGS_PATH \<longrightarrow> files s' q = files s3 q"
              "r = Inr () \<or> r = Inl (WriteError CC_SETTINGS_PATH)"
          by blast
        have r4: "run_of s s' ([Read CC_SETTINGS_PATH, w1, Exists CLAUDIAN_SETTINGS_PATH] @ rd @ [w2])"
          using run_of_trans [OF r3 w2(1)] by simp
        have "r \<noteq> Inr () \<longrightarrow> files s' CC_SETTINGS_PATH = files s CC_SETTINGS_PATH"
          using w2(6) cc3 by simp
        then have "\<exists>w1 rd w2. is_write_to CLAUDIAN_SETTINGS_PATH w1 \<and> \<not> is_failure w1 \<and> \<not> is_saveData w1
           \<and> (rd = [] \<or> rd = [Read CLAUDIAN_SETTINGS_PATH])
           \<and> is_write_to CC_SETTINGS_PATH w2 \<and> \<not> is_saveData w2 \<and> w2 \<noteq> CaughtItemError
           \<and> (r = Inr () \<longrightarrow> \<not> is_failure w2)
           \<and> (r = Inr () \<or> r = Inl (WriteError CC_SETTINGS_PATH))
           \<and> (r \<noteq> Inr () \<longrightarrow> files s' CC_SETTINGS_PATH = files s CC_SETTINGS_PATH)
           \<and> run_of s s' ([Read CC_SETTINGS_PATH, w1, Exists CLAUDIAN_SETTINGS_PATH] @ rd @ [w2])"
          using w1(2,3) nf rd(3) w2(2,3,4,5,8) r4 by blast
        then show ?thesis by blast
      qed
    qed
  qed
qed

section \<open>The sentinel of the read-back\<close>

lemma obj_spread_keeps: "obj_get a k \<noteq> None \<Longrightarrow> obj_get (obj_spread a b) k \<noteq> None"
  unfolding obj_spread_def
  by (induction b arbitrary: a) (simp_all add: obj_get_set)

lemma loadedSettings_default:
  "loadedSettings d stored = Inr settings \<Longrightarrow> obj_get (getDefaults d) k \<noteq> None \<Longrightarrow>
   obj_get settings k \<noteq> None"
proof -
  assume run: "loadedSettings d stored = Inr settings"
    and dflt: "obj_get (getDefaults d) k \<noteq> None"
  let ?spread = "obj_spread (getDefaults d) (obj_delete (js_entries stored) ''activeConversationId'')"
  have "obj_get ?spread k \<noteq> None" using dflt by (rule obj_spread_keeps)
  then have "\<And>k1 v1 k2 v2 k3 v3.
      obj_get (obj_set (obj_set (obj_set ?spread k1 v1) k2 v2) k3 v3) k \<noteq> None"
    by (simp add: obj_get_set)
  then show ?thesis using run
    by (simp add: loadedSettings_def Let_def split: if_splits) blast
qed

lemma load_default:
  assumes "claudianSettings_load d s = (Inr loaded, s1)"
      and "obj_get (getDefaults d) k \<noteq> None"
  shows "obj_get loaded k \<noteq> None"
proof (cases "path_exists s CLAUDIAN_SETTINGS_PATH")
  case False
  then have "loaded = getDefaults d"
    using assms(1) by (simp add: claudianSettings_load_def adapter_exists_path)
  then show ?thesis using assms(2) by simp
next
  case True
  then obtain stored where "loadedSettings d stored = Inr loaded"
    using assms(1)
    by (auto simp: claudianSettings_load_def adapter_exists_path adapter_read_eff
        split: option.splits sum.splits)
  then show ?thesis using assms(2) by (rule loadedSettings_default)
qed

lemma load_error:
  "claudianSettings_load d s = (Inl e, s1) \<Longrightarrow> e \<noteq> VerificationError"
  by (auto simp: claudianSettings_load_def adapter_exists_path adapter_read_eff
      loadedSettings_def Let_def
      split: option.splits sum.splits if_splits bool.splits dest: parseJson_error)

lemma getDefaults_userName:
  "obj_get (DEFAULT_SETTINGS d) ''userName'' \<noteq> None \<Longrightarrow>
   obj_get (getDefaults d) ''userName'' \<noteq> None"
  by (simp add: getDefaults_def obj_get_delete)

lemma split_never_fails_verification:
  assumes dflt: "obj_get (DEFAULT_SETTINGS d) ''userName'' \<noteq> None"
      and run: "migrateFromOldSettingsJson d s = (r, s')"
  shows "r \<noteq> Inl VerificationError"
proof -
  from split_anatomy [OF run] consider
    (early) "r \<noteq> Inl VerificationError"
  | (later) old ev rw s2 where
      "adapter_write CLAUDIAN_SETTINGS_PATH (JsonText (JObj (claudianFields d old ev)))
         (log (Read CC_SETTINGS_PATH) s) = (rw, s2)"
      "(\<exists>e. rw = Inl e \<and> r = Inl e \<and> s' = s2)
                \<or> (rw = Inr ()
                   \<and> (\<exists>rl s3. claudianSettings_load d s2 = (rl, s3)
                        \<and> ((\<exists>e. rl = Inl e \<and> r = Inl e \<and> s' = s3)
                           \<or> (\<exists>saved. rl = Inr saved \<and> obj_get saved ''userName'' = None
                                 \<and> r = Inl VerificationError \<and> s' = s3)
                           \<or> (\<exists>saved. rl = Inr saved \<and> obj_get saved ''userName'' \<noteq> None
                                 \<and> adapter_write CC_SETTINGS_PATH
                                      (JsonText (JObj (ccSettingsFor d old))) s3 = (r, s')))))"
    by blast
  then show ?thesis
  proof cases
    case early
    then show ?thesis .
  next
    case later
    from adapter_write_run [OF later(1)] have rw: "rw = Inr () \<or> rw = Inl (WriteError CLAUDIAN_SETTINGS_PATH)"
      by blast
    from later(2) consider
      (wfail) e where "rw = Inl e" "r = Inl e"
    | (lfail) e s3 where "claudianSettings_load d s2 = (Inl e, s3)" "r = Inl e"
    | (check) saved s3 where "claudianSettings_load d s2 = (Inr saved, s3)"
        "obj_get saved ''userName'' = None"
    | (save) s3 where
        "adapter_write CC_SETTINGS_PATH (JsonText (JObj (ccSettingsFor d old))) s3 = (r, s')"
      by blast
    then show ?thesis
    proof cases
      case wfail
      then show ?thesis using rw by auto
    next
      case lfail
      then show ?thesis using load_error by blast
    next
      case check
      then show ?thesis using load_default [OF check(1) getDefaults_userName [OF dflt]] by simp
    next
      case save
      from adapter_write_run [OF save] have "r = Inr () \<or> r = Inl (WriteError CC_SETTINGS_PATH)"
        by blast
      then show ?thesis by auto
    qed
  qed
qed

lemma lost_write_goes_through:
  assumes dflt: "obj_get (DEFAULT_SETTINGS d) ''userName'' \<noteq> None"
      and cc: "files s CC_SETTINGS_PATH = Some (JsonText old)"
      and has: "hasClaudianFields old = Inr True"
      and env: "migratedEnvironmentVariables (prop_of old ''environmentVariables'')
                  (prop_of old ''env'') = Inr ev"
      and absent: "\<not> path_exists s CLAUDIAN_SETTINGS_PATH"
      and lost: "wmode s CLAUDIAN_SETTINGS_PATH = WriteLost"
      and ok: "wmode s CC_SETTINGS_PATH = WriteOk"
  shows "fst (migrateFromOldSettingsJson d s) = Inr ()
       \<and> files (snd (migrateFromOldSettingsJson d s)) CLAUDIAN_SETTINGS_PATH = None
       \<and> files (snd (migrateFromOldSettingsJson d s)) CC_SETTINGS_PATH
           = Some (JsonText (JObj (ccSettingsFor d old)))"
proof -
  let ?s1 = "log (Read CC_SETTINGS_PATH) s"
  let ?s2 = "log (WriteDropped CLAUDIAN_SETTINGS_PATH (JsonText (JObj (claudianFields d old ev)))) ?s1"
  let ?s3 = "log (Exists CLAUDIAN_SETTINGS_PATH) ?s2"
  have w: "claudianSettings_save (claudianFields d old ev) ?s1 = (Inr (), ?s2)"
    using lost by (simp add: claudianSettings_save_def adapter_write_def log_def)
  have "\<not> path_exists ?s2 CLAUDIAN_SETTINGS_PATH" using absent by simp
  then have l: "claudianSettings_load d ?s2 = (Inr (getDefaults d), ?s3)"
    by (simp add: claudianSettings_load_def adapter_exists_path)
  have u: "obj_get (getDefaults d) ''userName'' \<noteq> None" by (rule getDefaults_userName [OF dflt])
  have run: "migrateFromOldSettingsJson d s = ccSettings_save (ccSettingsFor d old) ?s3"
    using cc has env w l u
    by (auto simp: migrateFromOldSettingsJson_def adapter_read_def)
  have wm: "wmode ?s3 CC_SETTINGS_PATH = WriteOk" using ok by (simp add: log_def)
  have "files ?s3 CLAUDIAN_SETTINGS_PATH = None"
    using absent by (simp add: log_def path_exists_def)
  then show ?thesis using wm
    by (simp add: run ccSettings_save_def adapter_write_def log_def)
qed

text \<open>Claim C10: when the default table defines \<^verbatim>\<open>userName\<close>, every record that
  \<^verbatim>\<open>load()\<close> returns defines it, so the split migration never ends in the verification
  error; and when the write of the plugin settings is silently lost (the file is absent
  after \<^verbatim>\<open>save\<close>), the migration still completes and rewrites \<^verbatim>\<open>settings.json\<close>.\<close>

theorem C10_verification_unreachable:
  "obj_get (DEFAULT_SETTINGS d) ''userName'' \<noteq> None \<longrightarrow>
     (claudianSettings_load d s = (Inr loaded, s1) \<longrightarrow> obj_get loaded ''userName'' \<noteq> None)
     \<and> fst (migrateFromOldSettingsJson d s) \<noteq> Inl VerificationError
     \<and> (files s CC_SETTINGS_PATH = Some (JsonText old)
        \<and> hasClaudianFields old = Inr True
        \<and> migratedEnvironmentVariables (prop_of old ''environmentVariables'')
             (prop_of old ''env'') = Inr ev
        \<and> \<not> path_exists s CLAUDIAN_SETTINGS_PATH
        \<and> wmode s CLAUDIAN_SETTINGS_PATH = WriteLost
        \<and> wmode s CC_SETTINGS_PATH = WriteOk \<longrightarrow>
          fst (migrateFromOldSettingsJson d s) = Inr ()
          \<and> files (snd (migrateFromOldSettingsJson d s)) CLAUDIAN_SETTINGS_PATH = None
          \<and> files (snd (migrateFromOldSettingsJson d s)) CC_SETTINGS_PATH
              = Some (JsonText (JObj (ccSettingsFor d old))))"
proof
  assume dflt: "obj_get (DEFAULT_SETTINGS d) ''userName'' \<noteq> None"
  have a: "claudianSettings_load d s = (Inr loaded, s1) \<longrightarrow> obj_get loaded ''userName'' \<noteq> None"
    using load_default getDefaults_userName [OF dflt] by blast
  have b: "fst (migrateFromOldSettingsJson d s) \<noteq> Inl VerificationError"
    using split_never_fails_verification [OF dflt, of s
        "fst (migrateFromOldSettingsJson d s)" "snd (migrateFromOldSettingsJson d s)"]
    by simp
  have c: "files s CC_SETTINGS_PATH = Some (JsonText old)
        \<and> hasClaudianFields old = Inr True
        \<and> migratedEnvironmentVariables (prop_of old ''environmentVariables'')
             (prop_of old ''env'') = Inr ev
        \<and> \<not> path_exists s CLAUDIAN_SETTINGS_PATH
        \<and> wmode s CLAUDIAN_SETTINGS_PATH = WriteLost
        \<and> wmode s CC_SETTINGS_PATH = WriteOk \<longrightarrow>
          fst (migrateFromOldSettingsJson d s) = Inr ()
          \<and> files (snd (migrateFromOldSettingsJson d s)) CLAUDIAN_SETTINGS_PATH = None
          \<and> files (snd (migrateFromOldSettingsJson d s)) CC_SETTINGS_PATH
              = Some (JsonText (JObj (ccSettingsFor d old)))"
    using lost_write_goes_through [OF dflt] by blast
  from a b c show "(claudianSettings_load d s = (Inr loaded, s1) \<longrightarrow> obj_get loaded ''userName'' \<noteq> None)
     \<and> fst (migrateFromOldSettingsJson d s) \<noteq> Inl VerificationError
     \<and> (files s CC_SETTINGS_PATH = Some (JsonText old)
        \<and> hasClaudianFields old = Inr True
        \<and> migratedEnvironmentVariables (prop_of old ''environmentVariables'')
             (prop_of old ''env'') = Inr ev
        \<and> \<not> path_exists s CLAUDIAN_SETTINGS_PATH
        \<and> wmode s CLAUDIAN_SETTINGS_PATH = WriteLost
        \<and> wmode s CC_SETTINGS_PATH = WriteOk \<longrightarrow>
          fst (migrateFromOldSettingsJson d s) = Inr ()
          \<and> files (snd (migrateFromOldSettingsJson d s)) CLAUDIAN_SETTINGS_PATH = None
          \<and> files (snd (migrateFromOldSettingsJson d s)) CC_SETTINGS_PATH
              = Some (JsonText (JObj (ccSettingsFor d old))))"
    by blast
qed

text \<open>Claim C10 on the legacy file of the end-to-end example, in a vault that loses the write
  to the plugin settings: the migration returns normally, the plugin settings file is
  absent and \<^verbatim>\<open>settings.json\<close> holds the schema reference and the permissions only.\<close>

theorem C10_witness:
  "obj_get (DEFAULT_SETTINGS mockDeps) ''userName'' \<noteq> None
   \<and> files lossyVault CC_SETTINGS_PATH = Some (JsonText legacySettings)
   \<and> hasClaudianFields legacySettings = Inr True
   \<and> migratedEnvironmentVariables (prop_of legacySettings ''environmentVariables'')
        (prop_of legacySettings ''env'') = Inr (JStr [])
   \<and> \<not> path_exists lossyVault CLAUDIAN_SETTINGS_PATH
   \<and> wmode lossyVault CLAUDIAN_SETTINGS_PATH = WriteLost
   \<and> wmode lossyVault CC_SETTINGS_PATH = WriteOk
   \<and> fst (migrateFromOldSettingsJson mockDeps lossyVault) = Inr ()
   \<and> files (snd (migrateFromOldSettingsJson mockDeps lossyVault)) CLAUDIAN_SETTINGS_PATH = None
   \<and> files (snd (migrateFromOldSettingsJson mockDeps lossyVault)) CC_SETTINGS_PATH
       = Some (JsonText (JObj (ccSettingsFor mockDeps legacySettings)))
   \<and> obj_get (getDefaults mockDeps) ''userName'' \<noteq> None"
proof -
  have h: "obj_get (DEFAULT_SETTINGS mockDeps) ''userName'' \<noteq> None" by code_simp
  have l: "claudianSettings_load mockDeps lossyVault
             = (Inr (getDefaults mockDeps), snd (claudianSettings_load mockDeps lossyVault))"
  proof -
    have "fst (claudianSettings_load mockDeps lossyVault) = Inr (getDefaults mockDeps)"
      by code_simp
    then show ?thesis by (simp add: prod_eq_iff)
  qed
  note t = C10_verification_unreachable [of mockDeps lossyVault "getDefaults mockDeps"
      "snd (claudianSettings_load mockDeps lossyVault)" legacySettings "JStr []", THEN mp, OF h]
  have a: "files lossyVault CC_SETTINGS_PATH = Some (JsonText legacySettings)" by code_simp
  have b: "hasClaudianFields legacySettings = Inr True" by code_simp
  have c: "migratedEnvironmentVariables (prop_of legacySettings ''environmentVariables'')
        (prop_of legacySettings ''env'') = Inr (JStr [])" by code_simp
  have e: "\<not> path_exists lossyVault CLAUDIAN_SETTINGS_PATH" by code_simp
  have f: "wmode lossyVault CLAUDIAN_SETTINGS_PATH = WriteLost" by code_simp
  have g: "wmode lossyVault CC_SETTINGS_PATH = WriteOk" by code_simp
  from t l h a b c e f g show ?thesis by blast
qed

section \<open>Runs of the content migration\<close>

lemma emitted_append: "trace s' = trace s @ evs \<Longrightarrow> emitted s s' = evs"
  by (simp add: emitted_def)

lemma is_write_to_not_caught: "is_write_to p e \<Longrightarrow> e \<noteq> CaughtItemError"
  by (cases e) auto

lemma split_run:
  assumes "migrateFromOldSettingsJson d s = (r, s')"
  shows "\<exists>evs. run_of s s' evs \<and> quiet evs \<and> (r = Inr () \<longrightarrow> clean evs)"
proof -
  from split_shapes [OF assms] consider
    (a) "run_of s s' [Read CC_SETTINGS_PATH]"
  | (b) "r \<noteq> Inr ()" "run_of s s' [Read CC_SETTINGS_PATH, WriteFailed CLAUDIAN_SETTINGS_PATH]"
  | (c) w1 rd where "r \<noteq> Inr ()" "is_write_to CLAUDIAN_SETTINGS_PATH w1" "\<not> is_saveData w1"
        "rd = [] \<or> rd = [Read CLAUDIAN_SETTINGS_PATH]"
        "run_of s s' ([Read CC_SETTINGS_PATH, w1, Exists CLAUDIAN_SETTINGS_PATH] @ rd)"
  | (d) w1 rd w2 where "is_write_to CLAUDIAN_SETTINGS_PATH w1" "\<not> is_failure w1" "\<not> is_saveData w1"
        "rd = [] \<or> rd = [Read CLAUDIAN_SETTINGS_PATH]"
        "\<not> is_saveData w2" "w2 \<noteq> CaughtItemError" "r = Inr () \<longrightarrow> \<not> is_failure w2"
        "run_of s s' ([Read CC_SETTINGS_PATH, w1, Exists CLAUDIAN_SETTINGS_PATH] @ rd @ [w2])"
    by blast
  then show ?thesis
  proof cases
    case a
    have "clean [Read CC_SETTINGS_PATH]" by (simp add: clean_def)
    then show ?thesis using a clean_quiet by blast
  next
    case b
    have "quiet [Read CC_SETTINGS_PATH, WriteFailed CLAUDIAN_SETTINGS_PATH]" by (simp add: quiet_def)
    then show ?thesis using b by blast
  next
    case c
    have "w1 \<noteq> CaughtItemError" using c(2) by (rule is_write_to_not_caught)
    then have "quiet ([Read CC_SETTINGS_PATH, w1, Exists CLAUDIAN_SETTINGS_PATH] @ rd)"
      using c(3,4) by (auto simp: quiet_def)
    then show ?thesis using c(1,5) by blast
  next
    case d
    have nc: "w1 \<noteq> CaughtItemError" using d(1) by (rule is_write_to_not_caught)
    have q: "quiet ([Read CC_SETTINGS_PATH, w1, Exists CLAUDIAN_SETTINGS_PATH] @ rd @ [w2])"
      using nc d(3,4,5,6) by (auto simp: quiet_def)
    have "r = Inr () \<longrightarrow> clean ([Read CC_SETTINGS_PATH, w1, Exists CLAUDIAN_SETTINGS_PATH] @ rd @ [w2])"
      using d(2,3,4,5,7) by (auto simp: clean_def)
    then show ?thesis using q d(8) by blast
  qed
qed

lemma write_turn:
  assumes ex: "\<not> path_exists s path"
      and run: "(case adapter_write path content (log (Exists path) s) of
                   (Inl e, s2) \<Rightarrow> (True, log CaughtItemError s2)
                 | (Inr saved, s2) \<Rightarrow> (False, s2)) = (failed, s')"
  shows "\<exists>evs. turn_of s s' failed evs"
proof -
  obtain r s2 where w: "adapter_write path content (log (Exists path) s) = (r, s2)"
    by (cases "adapter_write path content (log (Exists path) s)")
  from adapter_write_run [OF w] obtain e where
    e: "run_of (log (Exists path) s) s2 [e]" "\<not> is_saveData e" "e \<noteq> CaughtItemError"
       "r = Inr () \<longrightarrow> \<not> is_failure e" by blast
  have r2: "run_of s s2 [Exists path, e]"
    using run_of_trans [OF run_of_log e(1)] by simp
  show ?thesis
  proof (cases r)
    case (Inl err)
    then have "failed" "s' = log CaughtItemError s2" using run w by auto
    moreover have "run_of s (log CaughtItemError s2) [Exists path, e, CaughtItemError]"
      using run_of_trans [OF r2 run_of_log] by simp
    ultimately have "turn_of s s' failed [Exists path, e, CaughtItemError]"
      using e(2) by (simp add: turn_of_def)
    then show ?thesis by blast
  next
    case (Inr u)
    then have "\<not> failed" "s' = s2" using run w by auto
    moreover have "clean [Exists path, e]" using e(2,4) Inr by (simp add: clean_def)
    ultimately have "turn_of s s' failed [Exists path, e]"
      using r2 e(2,3) by (simp add: turn_of_def)
    then show ?thesis by blast
  qed
qed

lemma skip_turn: "turn_of s (log (Exists path) s) False [Exists path]"
  by (simp add: turn_of_def run_of_log clean_def)

lemma caught_turn: "turn_of s (log CaughtItemError s) True [CaughtItemError]"
  by (simp add: turn_of_def run_of_log)

lemma migrateCommand_turn:
  assumes "migrateCommand d command s = (failed, s')"
  shows "\<exists>evs. turn_of s s' failed evs"
proof (cases "commands_getFilePath d command")
  case (Inl e)
  then have "failed" "s' = log CaughtItemError s" using assms by (auto simp: migrateCommand_def)
  then show ?thesis using caught_turn [of s] by auto
next
  case (Inr path)
  show ?thesis
  proof (cases "path_exists s path")
    case True
    then have "\<not> failed" "s' = log (Exists path) s"
      using assms Inr by (auto simp: migrateCommand_skip)
    then show ?thesis using skip_turn by auto
  next
    case False
    then have "(case adapter_write path (CommandText command) (log (Exists path) s) of
                   (Inl e, s2) \<Rightarrow> (True, log CaughtItemError s2)
                 | (Inr saved, s2) \<Rightarrow> (False, s2)) = (failed, s')"
      using assms Inr by (simp add: migrateCommand_def adapter_exists_path commands_save_def)
    then show ?thesis using write_turn [OF False] by blast
  qed
qed

lemma migrateConversation_turn:
  assumes "migrateConversation d conversation s = (failed, s')"
  shows "\<exists>evs. turn_of s s' failed evs"
proof (cases "conversation = JNull")
  case True
  then have "failed" "s' = log CaughtItemError s"
    using assms by (auto simp: migrateConversation_def)
  then show ?thesis using caught_turn [of s] by auto
next
  case nn: False
  let ?path = "sessions_getFilePath d (prop_of conversation ''id'')"
  show ?thesis
  proof (cases "path_exists s ?path")
    case True
    then have "\<not> failed" "s' = log (Exists ?path) s"
      using assms nn by (auto simp: migrateConversation_skip)
    then show ?thesis using skip_turn by auto
  next
    case False
    then have "(case adapter_write ?path (SessionText conversation) (log (Exists ?path) s) of
                   (Inl e, s2) \<Rightarrow> (True, log CaughtItemError s2)
                 | (Inr saved, s2) \<Rightarrow> (False, s2)) = (failed, s')"
      using assms nn
      by (simp add: migrateConversation_def adapter_exists_path js_prop_not_null
          sessions_saveConversation_def)
    then show ?thesis using write_turn [OF False] by blast
  qed
qed

lemma turn_of_trans:
  assumes "turn_of s s1 f1 e1" and "turn_of s1 s2 f2 e2"
  shows "turn_of s s2 (f1 \<or> f2) (e1 @ e2)"
  using assms by (auto simp: turn_of_def run_of_def)

lemma migrateEach_turn:
  assumes step: "\<And>item s failed s'. step item s = (failed, s') \<Longrightarrow> \<exists>evs. turn_of s s' failed evs"
      and run: "migrateEach step items h s = (h', s')"
  shows "\<exists>f evs. turn_of s s' f evs \<and> h' = (h \<or> f)"
  using run
proof (induction items arbitrary: h s)
  case Nil
  then have "turn_of s s' False []" "h' = (h \<or> False)"
    by (simp_all add: turn_of_def run_of_refl clean_def)
  then show ?case by blast
next
  case (Cons item items)
  obtain failed s1 where st: "step item s = (failed, s1)" by (cases "step item s")
  from step [OF st] obtain e1 where t1: "turn_of s s1 failed e1" by blast
  have "migrateEach step items (h \<or> failed) s1 = (h', s')"
    using Cons.prems st by simp
  from Cons.IH [OF this] obtain f evs where
    t2: "turn_of s1 s' f evs" "h' = ((h \<or> failed) \<or> f)" by blast
  have "turn_of s s' (failed \<or> f) (e1 @ evs)" using t1 t2(1) by (rule turn_of_trans)
  moreover have "h' = (h \<or> (failed \<or> f))" using t2(2) by simp
  ultimately show ?case by blast
qed

lemma content_turn:
  assumes "migrateLegacyDataJsonContent d dataJson s = (h, s')"
  shows "\<exists>evs. turn_of s s' h evs"
proof -
  obtain h1 s1 where a: "migrateEach (migrateCommand d) (contentItems dataJson ''slashCommands'') False s = (h1, s1)"
    by (cases "migrateEach (migrateCommand d) (contentItems dataJson ''slashCommands'') False s")
  with assms have b: "migrateEach (migrateConversation d) (contentItems dataJson ''conversations'') h1 s1 = (h, s')"
    by (simp add: migrateLegacyDataJsonContent_def)
  from migrateEach_turn [OF _ a] migrateCommand_turn obtain f1 e1 where
    t1: "turn_of s s1 f1 e1" "h1 = (False \<or> f1)" by blast
  from migrateEach_turn [OF _ b] migrateConversation_turn obtain f2 e2 where
    t2: "turn_of s1 s' f2 e2" "h = (h1 \<or> f2)" by blast
  have "turn_of s s' (f1 \<or> f2) (e1 @ e2)" using t1(1) t2(1) by (rule turn_of_trans)
  moreover have "h = (f1 \<or> f2)" using t1(2) t2(2) by simp
  ultimately show ?thesis by auto
qed

lemma clear_run:
  assumes "blob s = Some dataJson" and "clearLegacyDataJson s = (r, s')"
  shows "trace s' = trace s @ [SaveData (cleaned dataJson)]
       \<and> files s' = files s \<and> folders s' = folders s
       \<and> (r = Inr () \<longrightarrow> blob s' = Some (cleaned dataJson))
       \<and> (r \<noteq> Inr () \<longrightarrow> blob s' = blob s)"
  using assms
  by (auto simp: clearLegacyDataJson_def loadDataJson_def plugin_saveData_def log_def
      split: if_splits)

section \<open>The outcomes of the migrations\<close>

lemma run_of_id: "run_of s s' evs \<Longrightarrow> trace s' = trace s @ evs \<and> blob s' = blob s \<and> folders s' = folders s"
  by (simp add: run_of_def)

lemma outcome_aborted:
  "run_of s s' evs \<Longrightarrow> r \<noteq> Inr () \<Longrightarrow> quiet evs \<Longrightarrow> migrations_outcome s s' r evs"
  by (simp add: migrations_outcome_def run_of_def)

lemma outcome_nothing:
  "run_of s s' evs \<Longrightarrow> clean evs \<Longrightarrow>
   blob s = None \<or> (\<exists>b. blob s = Some b \<and> \<not> hasStateToMigrate b \<and> \<not> hasLegacyContentToMigrate b) \<Longrightarrow>
   migrations_outcome s s' (Inr ()) evs"
  by (simp add: migrations_outcome_def run_of_def)

lemma outcome_errors:
  "run_of s s' evs \<Longrightarrow> blob s = Some b \<Longrightarrow> hasLegacyContentToMigrate b \<Longrightarrow>
   CaughtItemError \<in> set evs \<Longrightarrow> \<forall>e\<in>set evs. \<not> is_saveData e \<Longrightarrow>
   migrations_outcome s s' (Inr ()) evs"
  by (simp add: migrations_outcome_def run_of_def list_all_iff)

lemma outcome_cleared:
  "trace s' = trace s @ pre @ [SaveData (cleaned b)] \<Longrightarrow> folders s' = folders s \<Longrightarrow>
   blob s = Some b \<Longrightarrow> hasStateToMigrate b \<or> hasLegacyContentToMigrate b \<Longrightarrow> clean pre \<Longrightarrow>
   (if r = Inr () then blob s' = Some (cleaned b) else blob s' = blob s) \<Longrightarrow>
   migrations_outcome s s' r (pre @ [SaveData (cleaned b)])"
  unfolding migrations_outcome_def by blast

lemma runMigrations_outcomes:
  assumes run: "runMigrations d s = (r, s')"
  shows "\<exists>evs. migrations_outcome s s' r evs"
proof -
  let ?s1 = "log (Exists CC_SETTINGS_PATH) s"
  let ?s2 = "log (Exists CLAUDIAN_SETTINGS_PATH) ?s1"
  define pre2 where "pre2 = [Exists CC_SETTINGS_PATH, Exists CLAUDIAN_SETTINGS_PATH]"
  have r02: "run_of s ?s2 pre2"
    using run_of_trans [OF run_of_log run_of_log] by (simp add: pre2_def)
  have c2: "clean pre2" by (simp add: clean_def pre2_def)
  obtain rs s3 where sp:
    "(if path_exists s CC_SETTINGS_PATH \<and> \<not> path_exists s CLAUDIAN_SETTINGS_PATH
      then migrateFromOldSettingsJson d ?s2 else (Inr (), ?s2)) = (rs, s3)"
    by (cases "if path_exists s CC_SETTINGS_PATH \<and> \<not> path_exists s CLAUDIAN_SETTINGS_PATH
      then migrateFromOldSettingsJson d ?s2 else (Inr (), ?s2)")
  have "\<exists>e3. run_of ?s2 s3 e3 \<and> quiet e3 \<and> (rs = Inr () \<longrightarrow> clean e3)"
  proof (cases "path_exists s CC_SETTINGS_PATH \<and> \<not> path_exists s CLAUDIAN_SETTINGS_PATH")
    case True
    then have "migrateFromOldSettingsJson d ?s2 = (rs, s3)" using sp by simp
    then show ?thesis by (rule split_run)
  next
    case False
    then have "s3 = ?s2" "rs = Inr ()" using sp by auto
    moreover have "quiet []" "clean []" by (simp_all add: quiet_def clean_def)
    ultimately show ?thesis using run_of_refl by blast
  qed
  then obtain e3 where e3: "run_of ?s2 s3 e3" "quiet e3" "rs = Inr () \<longrightarrow> clean e3" by blast
  have r03: "run_of s s3 (pre2 @ e3)" using r02 e3(1) by (rule run_of_trans)
  have q3: "quiet (pre2 @ e3)" using c2 e3(2) clean_quiet by simp
  note defs = runMigrations_def ccSettings_exists_def claudianSettings_exists_def
    adapter_exists_path Let_def loadDataJson_def
  have blob2: "blob ?s2 = blob s" by (simp add: log_def)
  show ?thesis
  proof (cases rs)
    case (Inl e)
    then have "r = Inl e" "s' = s3" using run sp by (simp_all add: defs)
    then have "migrations_outcome s s' r (pre2 @ e3)"
      using outcome_aborted [OF r03 _ q3, of r] by simp
    then show ?thesis ..
  next
    case rsok: (Inr u)
    then have cl3: "clean (pre2 @ e3)" using c2 e3(3) by simp
    show ?thesis
    proof (cases "blob s")
      case None
      then have "r = Inr ()" "s' = s3" using run sp rsok blob2 by (simp_all add: defs)
      then have "migrations_outcome s s' r (pre2 @ e3)"
        using outcome_nothing [OF r03 cl3] None by simp
      then show ?thesis ..
    next
      case (Some b)
      obtain rt s4 where stt:
        "(if hasStateToMigrate b then migrateFromDataJson d b s3 else (Inr (), s3)) = (rt, s4)"
        by (cases "if hasStateToMigrate b then migrateFromDataJson d b s3 else (Inr (), s3)")
      have "\<exists>e4. run_of s3 s4 e4 \<and> quiet e4 \<and> (rt = Inr () \<longrightarrow> clean e4)"
      proof (cases "hasStateToMigrate b")
        case True
        then have "migrateFromDataJson d b s3 = (rt, s4)" using stt by simp
        then show ?thesis by (rule migrateFromDataJson_run)
      next
        case False
        then have "s4 = s3" "rt = Inr ()" using stt by auto
        moreover have "quiet []" "clean []" by (simp_all add: quiet_def clean_def)
        ultimately show ?thesis using run_of_refl by blast
      qed
      then obtain e4 where e4: "run_of s3 s4 e4" "quiet e4" "rt = Inr () \<longrightarrow> clean e4" by blast
      have r04: "run_of s s4 (pre2 @ e3 @ e4)"
        using run_of_trans [OF r03 e4(1)] by simp
      show ?thesis
      proof (cases rt)
        case (Inl e)
        then have "r = Inl e" "s' = s4" using run sp rsok blob2 Some stt by (simp_all add: defs)
        moreover have "quiet (pre2 @ e3 @ e4)" using q3 e4(2) by simp
        ultimately have "migrations_outcome s s' r (pre2 @ e3 @ e4)"
          using outcome_aborted [OF r04, of r] by simp
        then show ?thesis ..
      next
        case rtok: (Inr u2)
        then have cl4: "clean (pre2 @ e3 @ e4)" using cl3 e4(3) by simp
        obtain h s5 where ct:
          "(if hasLegacyContentToMigrate b then migrateLegacyDataJsonContent d b s4
            else (False, s4)) = (h, s5)"
          by (cases "if hasLegacyContentToMigrate b then migrateLegacyDataJsonContent d b s4
            else (False, s4)")
        have "\<exists>e5. turn_of s4 s5 h e5 \<and> (h \<longrightarrow> hasLegacyContentToMigrate b)"
        proof (cases "hasLegacyContentToMigrate b")
          case True
          then have "migrateLegacyDataJsonContent d b s4 = (h, s5)" using ct by simp
          from content_turn [OF this] show ?thesis using True by blast
        next
          case False
          then have "s5 = s4" "\<not> h" using ct by auto
          moreover have "turn_of s4 s4 False []"
            by (simp add: turn_of_def run_of_refl clean_def)
          ultimately show ?thesis by auto
        qed
        then obtain e5 where e5: "turn_of s4 s5 h e5" "h \<longrightarrow> hasLegacyContentToMigrate b" by blast
        then have t5: "run_of s4 s5 e5" "\<forall>e\<in>set e5. \<not> is_saveData e"
            "h = (CaughtItemError \<in> set e5)" "\<not> h \<longrightarrow> clean e5"
          by (simp_all add: turn_of_def)
        have r05: "run_of s s5 (pre2 @ e3 @ e4 @ e5)"
          using run_of_trans [OF r04 t5(1)] by simp
        have fin: "(if (hasStateToMigrate b \<or> hasLegacyContentToMigrate b) \<and> \<not> h
                    then clearLegacyDataJson s5 else (Inr (), s5)) = (r, s')"
          using run sp rsok blob2 Some stt rtok ct by (simp add: defs)
        show ?thesis
        proof (cases "(hasStateToMigrate b \<or> hasLegacyContentToMigrate b) \<and> \<not> h")
          case True
          then have cl: "clearLegacyDataJson s5 = (r, s')" using fin by simp
          have b5: "blob s5 = Some b" using run_of_id [OF r05] Some by simp
          from clear_run [OF b5 cl] have c:
            "trace s' = trace s5 @ [SaveData (cleaned b)]" "folders s' = folders s5"
            "r = Inr () \<longrightarrow> blob s' = Some (cleaned b)" "r \<noteq> Inr () \<longrightarrow> blob s' = blob s5"
            by simp_all
          have tr: "trace s' = trace s @ (pre2 @ e3 @ e4 @ e5) @ [SaveData (cleaned b)]"
            using c(1) run_of_id [OF r05] by simp
          have fo: "folders s' = folders s" using c(2) run_of_id [OF r05] by simp
          have cl5: "clean (pre2 @ e3 @ e4 @ e5)" using cl4 t5(4) True by simp
          have hs: "hasStateToMigrate b \<or> hasLegacyContentToMigrate b" using True by simp
          have bl: "if r = Inr () then blob s' = Some (cleaned b) else blob s' = blob s"
            using c(3,4) b5 Some by simp
          have "migrations_outcome s s' r ((pre2 @ e3 @ e4 @ e5) @ [SaveData (cleaned b)])"
            using tr fo Some hs cl5 bl by (rule outcome_cleared)
          then show ?thesis ..
        next
          case False
          then have end5: "r = Inr ()" "s' = s5" using fin by auto
          show ?thesis
          proof (cases h)
            case True
            then have "hasLegacyContentToMigrate b" "CaughtItemError \<in> set (pre2 @ e3 @ e4 @ e5)"
              using e5(2) t5(3) by auto
            moreover have "\<forall>e\<in>set (pre2 @ e3 @ e4 @ e5). \<not> is_saveData e"
              using cl4 t5(2) by (auto simp: clean_def)
            ultimately have "migrations_outcome s s5 (Inr ()) (pre2 @ e3 @ e4 @ e5)"
              using outcome_errors [OF r05 Some] by blast
            then have "migrations_outcome s s' r (pre2 @ e3 @ e4 @ e5)" using end5 by simp
            then show ?thesis ..
          next
            case nh: False
            then have "\<not> hasStateToMigrate b \<and> \<not> hasLegacyContentToMigrate b" using False by simp
            moreover have "clean (pre2 @ e3 @ e4 @ e5)" using cl4 t5(4) nh by simp
            ultimately have "migrations_outcome s s5 (Inr ()) (pre2 @ e3 @ e4 @ e5)"
              using outcome_nothing [OF r05] Some by blast
            then have "migrations_outcome s s' r (pre2 @ e3 @ e4 @ e5)" using end5 by simp
            then show ?thesis ..
          qed
        qed
      qed
    qed
  qed
qed

section \<open>The gate of the clearing\<close>

lemma clean_mem:
  "clean evs \<Longrightarrow> SaveData x \<notin> set evs \<and> CaughtItemError \<notin> set evs \<and> WriteFailed p \<notin> set evs"
  by (auto simp: clean_def)

lemma quiet_mem: "quiet evs \<Longrightarrow> SaveData x \<notin> set evs \<and> CaughtItemError \<notin> set evs"
  by (auto simp: quiet_def)

lemma no_saveData_mem: "list_all (\<lambda>e. \<not> is_saveData e) evs \<Longrightarrow> SaveData x \<notin> set evs"
  by (auto simp: list_all_iff)

text \<open>Claim C1: in a run of \<^verbatim>\<open>runMigrations\<close>, \<^verbatim>\<open>saveData\<close> is called (the clearing of the
  legacy blob is attempted) only when the blob was there with state or content to migrate
  and no item of the content migration raised an error that was caught; in a run that
  returns normally the call is made exactly then, and the blob is afterwards the cleaned
  one.  Without the call the blob is as it was; in particular a caught item error or a
  failed write leaves the blob alone.\<close>

theorem C1_clear_gate:
  "runMigrations d s = (r, s') \<longrightarrow>
     ((\<exists>x. SaveData x \<in> set (emitted s s')) \<longrightarrow>
        (\<exists>b. blob s = Some b \<and> (hasStateToMigrate b \<or> hasLegacyContentToMigrate b))
        \<and> CaughtItemError \<notin> set (emitted s s'))
     \<and> (r = Inr () \<longrightarrow>
          ((\<exists>x. SaveData x \<in> set (emitted s s')) =
           ((\<exists>b. blob s = Some b \<and> (hasStateToMigrate b \<or> hasLegacyContentToMigrate b))
            \<and> CaughtItemError \<notin> set (emitted s s'))))
     \<and> (r = Inr () \<and> (\<exists>x. SaveData x \<in> set (emitted s s')) \<longrightarrow>
          (\<exists>b. blob s = Some b \<and> blob s' = Some (cleaned b)))
     \<and> ((\<forall>x. SaveData x \<notin> set (emitted s s')) \<longrightarrow> blob s' = blob s)
     \<and> (CaughtItemError \<in> set (emitted s s') \<or> (\<exists>p. WriteFailed p \<in> set (emitted s s')) \<longrightarrow>
          (\<forall>x. SaveData x \<notin> set (emitted s s')) \<and> blob s' = blob s)"
proof
  assume run: "runMigrations d s = (r, s')"
  from runMigrations_outcomes [OF run] obtain evs where o: "migrations_outcome s s' r evs" ..
  then have em: "emitted s s' = evs" by (simp add: migrations_outcome_def emitted_append)
  from o consider
    (aborted) "r \<noteq> Inr ()" "quiet evs" "blob s' = blob s"
  | (idle) "r = Inr ()" "clean evs" "blob s' = blob s"
      "blob s = None
       \<or> (\<exists>b. blob s = Some b \<and> \<not> hasStateToMigrate b \<and> \<not> hasLegacyContentToMigrate b)"
  | (errors) b where "r = Inr ()" "blob s = Some b" "hasLegacyContentToMigrate b"
      "CaughtItemError \<in> set evs" "list_all (\<lambda>e. \<not> is_saveData e) evs" "blob s' = blob s"
  | (cleared) b pre where "blob s = Some b" "hasStateToMigrate b \<or> hasLegacyContentToMigrate b"
      "evs = pre @ [SaveData (cleaned b)]" "clean pre"
      "if r = Inr () then blob s' = Some (cleaned b) else blob s' = blob s"
    unfolding migrations_outcome_def by blast
  then show "((\<exists>x. SaveData x \<in> set (emitted s s')) \<longrightarrow>
        (\<exists>b. blob s = Some b \<and> (hasStateToMigrate b \<or> hasLegacyContentToMigrate b))
        \<and> CaughtItemError \<notin> set (emitted s s'))
     \<and> (r = Inr () \<longrightarrow>
          ((\<exists>x. SaveData x \<in> set (emitted s s')) =
           ((\<exists>b. blob s = Some b \<and> (hasStateToMigrate b \<or> hasLegacyContentToMigrate b))
            \<and> CaughtItemError \<notin> set (emitted s s'))))
     \<and> (r = Inr () \<and> (\<exists>x. SaveData x \<in> set (emitted s s')) \<longrightarrow>
          (\<exists>b. blob s = Some b \<and> blob s' = Some (cleaned b)))
     \<and> ((\<forall>x. SaveData x \<notin> set (emitted s s')) \<longrightarrow> blob s' = blob s)
     \<and> (CaughtItemError \<in> set (emitted s s') \<or> (\<exists>p. WriteFailed p \<in> set (emitted s s')) \<longrightarrow>
          (\<forall>x. SaveData x \<notin> set (emitted s s')) \<and> blob s' = blob s)"
  proof cases
    case aborted
    then show ?thesis using quiet_mem [OF aborted(2)] by (simp add: em)
  next
    case idle
    then show ?thesis using clean_mem [OF idle(2)] by (auto simp: em)
  next
    case errors
    then show ?thesis using no_saveData_mem [OF errors(5)] by (simp add: em)
  next
    case cleared
    have "\<And>x. SaveData x \<notin> set pre" "CaughtItemError \<notin> set pre" "\<And>p. WriteFailed p \<notin> set pre"
      using clean_mem [OF cleared(4)] by auto
    then show ?thesis using cleared(1,2,5) by (auto simp: em cleared(3))
  qed
qed

text \<open>Claim C1 on the two vaults of the tests: with every write going through, the blob with one
  command is cleared; with the writes to the commands folder throwing, the error is caught
  and the blob stays.\<close>

theorem C1_witness:
  "SaveData [] \<in> set (emitted commandVault (snd (runMigrations mockDeps commandVault)))
   \<and> fst (runMigrations mockDeps commandVault) = Inr ()
   \<and> blob commandVault = Some [(''slashCommands'', JArr [reviewCommand])]
   \<and> hasLegacyContentToMigrate [(''slashCommands'', JArr [reviewCommand])]
   \<and> CaughtItemError \<notin> set (emitted commandVault (snd (runMigrations mockDeps commandVault)))
   \<and> (\<exists>b. blob commandVault = Some b
            \<and> blob (snd (runMigrations mockDeps commandVault)) = Some (cleaned b))
   \<and> CaughtItemError \<in> set (emitted failingVault (snd (runMigrations mockDeps failingVault)))
   \<and> WriteFailed ''.claude/commands/review.md''
        \<in> set (emitted failingVault (snd (runMigrations mockDeps failingVault)))
   \<and> blob (snd (runMigrations mockDeps failingVault)) = blob failingVault"
proof -
  have c1: "runMigrations mockDeps commandVault
      = (fst (runMigrations mockDeps commandVault), snd (runMigrations mockDeps commandVault))"
    by simp
  have c2: "runMigrations mockDeps failingVault
      = (fst (runMigrations mockDeps failingVault), snd (runMigrations mockDeps failingVault))"
    by simp
  note t1 = C1_clear_gate [of mockDeps commandVault "fst (runMigrations mockDeps commandVault)"
      "snd (runMigrations mockDeps commandVault)", THEN mp, OF c1]
  note t2 = C1_clear_gate [of mockDeps failingVault "fst (runMigrations mockDeps failingVault)"
      "snd (runMigrations mockDeps failingVault)", THEN mp, OF c2]
  have a: "SaveData [] \<in> set (emitted commandVault (snd (runMigrations mockDeps commandVault)))"
    by code_simp
  have b: "fst (runMigrations mockDeps commandVault) = Inr ()" by code_simp
  have c: "blob commandVault = Some [(''slashCommands'', JArr [reviewCommand])]" by code_simp
  have e: "hasLegacyContentToMigrate [(''slashCommands'', JArr [reviewCommand])]" by code_simp
  have f: "CaughtItemError \<in> set (emitted failingVault (snd (runMigrations mockDeps failingVault)))"
    by code_simp
  have g: "WriteFailed ''.claude/commands/review.md''
        \<in> set (emitted failingVault (snd (runMigrations mockDeps failingVault)))"
    by code_simp
  from t1 a b have h: "CaughtItemError \<notin> set (emitted commandVault (snd (runMigrations mockDeps commandVault)))"
    by blast
  from t1 a b have i: "\<exists>b. blob commandVault = Some b
            \<and> blob (snd (runMigrations mockDeps commandVault)) = Some (cleaned b)"
    by blast
  from t2 f have j: "blob (snd (runMigrations mockDeps failingVault)) = blob failingVault"
    by blast
  from a b c e f g h i j show ?thesis by blast
qed

section \<open>What the migrations of the blob spare\<close>

lemma spares_refl: "spares p s s"
  by (simp add: spares_def)

lemma spares_trans: "spares p s s1 \<Longrightarrow> spares p s1 s2 \<Longrightarrow> spares p s s2"
  by (auto simp: spares_def)

lemma spares_log: "spares p s (log e s)"
  by (simp add: spares_def log_def)

lemma spares_trace: "spares p s (s\<lparr>trace := trace s @ evs\<rparr>)"
  by (simp add: spares_def)

lemma adapter_write_spares:
  "adapter_write q c s = (r, s') \<Longrightarrow> q \<noteq> p \<Longrightarrow> spares p s s'"
  by (cases "wmode s q") (auto simp: adapter_write_def spares_def log_def)

lemma commands_path_differs:
  "commands_getFilePath d c = Inr p \<Longrightarrow> p \<noteq> CC_SETTINGS_PATH"
  by (auto simp: commands_getFilePath_def COMMANDS_PATH_def CC_SETTINGS_PATH_def
      split: option.splits)

lemma sessions_path_differs: "sessions_getFilePath d i \<noteq> CC_SETTINGS_PATH"
  by (simp add: sessions_getFilePath_def SESSIONS_PATH_def CC_SETTINGS_PATH_def)

lemma write_spares:
  assumes run: "(case adapter_write path content s0 of
                   (Inl e, s2) \<Rightarrow> (True, log CaughtItemError s2)
                 | (Inr saved, s2) \<Rightarrow> (False, s2)) = (failed, s')"
      and ne: "path \<noteq> q"
  shows "spares q s0 s'"
proof -
  obtain r s2 where w: "adapter_write path content s0 = (r, s2)"
    by (cases "adapter_write path content s0")
  have a: "spares q s0 s2" using w ne by (rule adapter_write_spares)
  show ?thesis
  proof (cases r)
    case (Inl err)
    then have "s' = log CaughtItemError s2" using run w by auto
    then show ?thesis using spares_trans [OF a spares_log] by simp
  next
    case (Inr u)
    then have "s' = s2" using run w by auto
    then show ?thesis using a by simp
  qed
qed

lemma migrateCommand_spares:
  assumes "migrateCommand d command s = (failed, s')"
  shows "spares CC_SETTINGS_PATH s s'"
proof (cases "commands_getFilePath d command")
  case (Inl e)
  then have "s' = log CaughtItemError s" using assms by (auto simp: migrateCommand_def)
  then show ?thesis by (simp add: spares_log)
next
  case (Inr path)
  have ne: "path \<noteq> CC_SETTINGS_PATH" using Inr by (rule commands_path_differs)
  show ?thesis
  proof (cases "path_exists s path")
    case True
    then have "s' = log (Exists path) s"
      using assms Inr by (auto simp: migrateCommand_skip)
    then show ?thesis by (simp add: spares_log)
  next
    case False
    then have "(case adapter_write path (CommandText command) (log (Exists path) s) of
                   (Inl e, s2) \<Rightarrow> (True, log CaughtItemError s2)
                 | (Inr saved, s2) \<Rightarrow> (False, s2)) = (failed, s')"
      using assms Inr by (simp add: migrateCommand_def adapter_exists_path commands_save_def)
    from write_spares [OF this ne] show ?thesis
      using spares_trans [OF spares_log] by blast
  qed
qed

lemma migrateConversation_spares:
  assumes "migrateConversation d conversation s = (failed, s')"
  shows "spares CC_SETTINGS_PATH s s'"
proof (cases "conversation = JNull")
  case True
  then have "s' = log CaughtItemError s"
    using assms by (auto simp: migrateConversation_def)
  then show ?thesis by (simp add: spares_log)
next
  case nn: False
  let ?path = "sessions_getFilePath d (prop_of conversation ''id'')"
  have ne: "?path \<noteq> CC_SETTINGS_PATH" by (rule sessions_path_differs)
  show ?thesis
  proof (cases "path_exists s ?path")
    case True
    then have "s' = log (Exists ?path) s"
      using assms nn by (auto simp: migrateConversation_skip)
    then show ?thesis by (simp add: spares_log)
  next
    case False
    then have "(case adapter_write ?path (SessionText conversation) (log (Exists ?path) s) of
                   (Inl e, s2) \<Rightarrow> (True, log CaughtItemError s2)
                 | (Inr saved, s2) \<Rightarrow> (False, s2)) = (failed, s')"
      using assms nn
      by (simp add: migrateConversation_def adapter_exists_path js_prop_not_null
          sessions_saveConversation_def)
    from write_spares [OF this ne] show ?thesis
      using spares_trans [OF spares_log] by blast
  qed
qed

lemma migrateEach_spares:
  assumes step: "\<And>item s failed s'. step item s = (failed, s') \<Longrightarrow> spares p s s'"
      and run: "migrateEach step items h s = (h', s')"
  shows "spares p s s'"
  using run
proof (induction items arbitrary: h s)
  case Nil
  then show ?case by (simp add: spares_refl)
next
  case (Cons item items)
  obtain failed s1 where st: "step item s = (failed, s1)" by (cases "step item s")
  have "migrateEach step items (h \<or> failed) s1 = (h', s')"
    using Cons.prems st by simp
  from Cons.IH [OF this] step [OF st] show ?case by (blast intro: spares_trans)
qed

lemma content_spares:
  assumes "migrateLegacyDataJsonContent d dataJson s = (h, s')"
  shows "spares CC_SETTINGS_PATH s s'"
proof -
  obtain h1 s1 where a: "migrateEach (migrateCommand d) (contentItems dataJson ''slashCommands'') False s = (h1, s1)"
    by (cases "migrateEach (migrateCommand d) (contentItems dataJson ''slashCommands'') False s")
  with assms have b: "migrateEach (migrateConversation d) (contentItems dataJson ''conversations'') h1 s1 = (h, s')"
    by (simp add: migrateLegacyDataJsonContent_def)
  have 1: "spares CC_SETTINGS_PATH s s1"
    using migrateEach_spares [OF _ a] migrateCommand_spares by blast
  have 2: "spares CC_SETTINGS_PATH s1 s'"
    using migrateEach_spares [OF _ b] migrateConversation_spares by blast
  from 1 2 show ?thesis by (rule spares_trans)
qed

lemma claudianSettings_load_spares:
  assumes "claudianSettings_load d s = (r, s')"
  shows "spares p s s'"
  using claudianSettings_load_eff [OF assms] by (auto simp: spares_def)

lemma migrateFromDataJson_spares:
  assumes "migrateFromDataJson d dataJson s = (r, s')"
  shows "spares CC_SETTINGS_PATH s s'"
proof (cases "claudianSettings_load d s")
  case (Pair rl s1)
  have l: "spares CC_SETTINGS_PATH s s1" using Pair by (rule claudianSettings_load_spares)
  show ?thesis
  proof (cases rl)
    case (Inl err)
    then have "s' = s1" using assms Pair by (auto simp: migrateFromDataJson_def)
    then show ?thesis using l by simp
  next
    case (Inr loaded)
    then have "adapter_write CLAUDIAN_SETTINGS_PATH (JsonText (JObj (mergedState dataJson loaded))) s1 = (r, s')"
      using assms Pair by (simp add: migrateFromDataJson_def claudianSettings_save_def)
    then have "spares CC_SETTINGS_PATH s1 s'" by (rule adapter_write_spares) simp
    with l show ?thesis by (rule spares_trans)
  qed
qed

lemma clear_spares: "clearLegacyDataJson s = (r, s') \<Longrightarrow> spares p s s'"
  by (auto simp: clearLegacyDataJson_def loadDataJson_def plugin_saveData_def log_def spares_def
      split: option.splits if_splits)

lemma files_settled_spares:
  assumes "files_settled s" and "spares CC_SETTINGS_PATH s s'"
  shows "files_settled s'"
  using assms unfolding files_settled_def spares_def path_exists_def by auto

section \<open>The vault after a run without fault\<close>

lemma split_settles:
  assumes run: "migrateFromOldSettingsJson d s = (Inr (), s')"
  shows "\<exists>evs. trace s' = trace s @ evs \<and> folders s' = folders s
           \<and> ((\<exists>c. WriteDropped CLAUDIAN_SETTINGS_PATH c \<in> set evs) \<or> files_settled s')"
proof -
  let ?s1 = "log (Read CC_SETTINGS_PATH) s"
  from split_anatomy [OF run] consider
    (early) old where "s' = ?s1" "files s CC_SETTINGS_PATH = Some (JsonText old)"
      "hasClaudianFields old = Inr False"
  | (full) c c2 s2 rl s3 where
      "adapter_write CLAUDIAN_SETTINGS_PATH c ?s1 = (Inr (), s2)"
      "claudianSettings_load d s2 = (rl, s3)"
      "adapter_write CC_SETTINGS_PATH c2 s3 = (Inr (), s')"
    by blast
  then show ?thesis
  proof cases
    case early
    have "trace s' = trace s @ [Read CC_SETTINGS_PATH]" "folders s' = folders s"
      using early(1) by (simp_all add: log_def)
    moreover have "files_settled s'"
      using early by (simp add: files_settled_def log_def)
    ultimately show ?thesis by blast
  next
    case full
    from claudianSettings_load_eff [OF full(2)] obtain e3 where
      l: "s3 = s2\<lparr>trace := trace s2 @ e3\<rparr>" by blast
    from adapter_write_run [OF full(3)] obtain w2 where
      w2: "run_of s3 s' [w2]" "\<forall>q. q \<noteq> CC_SETTINGS_PATH \<longrightarrow> files s' q = files s3 q"
      by blast
    have t3: "trace s' = trace s2 @ e3 @ [w2]" "folders s' = folders s2"
      using w2(1) l by (simp_all add: run_of_def)
    have f3: "files s' CLAUDIAN_SETTINGS_PATH = files s2 CLAUDIAN_SETTINGS_PATH"
      using w2(2) l by simp
    show ?thesis
    proof (cases "wmode ?s1 CLAUDIAN_SETTINGS_PATH")
      case WriteOk
      then have "files s2 CLAUDIAN_SETTINGS_PATH \<noteq> None"
          "trace s2 = trace s @ [Read CC_SETTINGS_PATH, Wrote CLAUDIAN_SETTINGS_PATH c]"
          "folders s2 = folders s"
        using full(1) by (auto simp: adapter_write_def log_def)
      then have "files_settled s'"
          "trace s' = trace s @ ([Read CC_SETTINGS_PATH, Wrote CLAUDIAN_SETTINGS_PATH c] @ e3 @ [w2])"
          "folders s' = folders s"
        using t3 f3 by (simp_all add: files_settled_def path_exists_def)
      then show ?thesis by blast
    next
      case WriteThrows
      then show ?thesis using full(1) by (simp add: adapter_write_def)
    next
      case WriteLost
      then have "trace s2 = trace s @ [Read CC_SETTINGS_PATH, WriteDropped CLAUDIAN_SETTINGS_PATH c]"
          "folders s2 = folders s"
        using full(1) by (auto simp: adapter_write_def log_def)
      then have "trace s' = trace s @ ([Read CC_SETTINGS_PATH, WriteDropped CLAUDIAN_SETTINGS_PATH c] @ e3 @ [w2])"
          "folders s' = folders s"
          "WriteDropped CLAUDIAN_SETTINGS_PATH c
             \<in> set ([Read CC_SETTINGS_PATH, WriteDropped CLAUDIAN_SETTINGS_PATH c] @ e3 @ [w2])"
        using t3 by simp_all
      then show ?thesis by blast
    qed
  qed
qed

lemma faultless_mem:
  "faultless evs \<Longrightarrow> WriteDropped p c \<notin> set evs \<and> CaughtItemError \<notin> set evs"
  by (auto simp: faultless_def list_all_iff)

lemma cleaned_settled: "\<not> hasStateToMigrate (cleaned b) \<and> \<not> hasLegacyContentToMigrate (cleaned b)"
  by (simp add: hasStateToMigrate_def hasLegacyContentToMigrate_def contentItems_def
      obj_get_cleaned consumedKeys_def)

lemma runMigrations_blob_settled:
  assumes run: "runMigrations d s = (Inr (), s')" and fl: "faultless (emitted s s')"
  shows "blob_settled s' \<and> folders s' = folders s"
proof -
  from runMigrations_outcomes [OF run] obtain evs where o: "migrations_outcome s s' (Inr ()) evs" ..
  then have em: "emitted s s' = evs" by (simp add: migrations_outcome_def emitted_append)
  have nc: "CaughtItemError \<notin> set evs" using faultless_mem [OF fl] em by simp
  from o nc consider
    (idle) "blob s' = blob s"
      "blob s = None
       \<or> (\<exists>b. blob s = Some b \<and> \<not> hasStateToMigrate b \<and> \<not> hasLegacyContentToMigrate b)"
  | (cleared) b where "blob s' = Some (cleaned b)"
    unfolding migrations_outcome_def by auto
  then have "blob_settled s'"
  proof cases
    case idle
    then show ?thesis by (auto simp: blob_settled_def)
  next
    case cleared
    then show ?thesis using cleaned_settled [of b] by (simp add: blob_settled_def)
  qed
  moreover have "folders s' = folders s" using o by (simp add: migrations_outcome_def)
  ultimately show ?thesis by simp
qed

lemma rest_spares:
  assumes "(case blob s3 of
        None \<Rightarrow> (Inr (), s3)
      | Some data \<Rightarrow>
     (case (if hasStateToMigrate data then migrateFromDataJson d data s3 else (Inr (), s3)) of
        (Inl e, s4) \<Rightarrow> (Inl e, s4)
      | (Inr state, s4) \<Rightarrow>
     (case (if hasLegacyContentToMigrate data then migrateLegacyDataJsonContent d data s4
            else (False, s4)) of
        (legacyContentHadErrors, s5) \<Rightarrow>
          if (hasStateToMigrate data \<or> hasLegacyContentToMigrate data)
             \<and> \<not> legacyContentHadErrors
          then clearLegacyDataJson s5
          else (Inr (), s5)))) = (r, s')"
  shows "spares CC_SETTINGS_PATH s3 s'"
proof (cases "blob s3")
  case None
  then show ?thesis using assms by (simp add: spares_refl)
next
  case (Some b)
  obtain rt s4 where stt:
    "(if hasStateToMigrate b then migrateFromDataJson d b s3 else (Inr (), s3)) = (rt, s4)"
    by (cases "if hasStateToMigrate b then migrateFromDataJson d b s3 else (Inr (), s3)")
  have 4: "spares CC_SETTINGS_PATH s3 s4"
    using stt migrateFromDataJson_spares [of d b s3 rt s4]
    by (cases "hasStateToMigrate b") (auto simp: spares_refl)
  show ?thesis
  proof (cases rt)
    case (Inl e)
    then have "s' = s4" using assms Some stt by simp
    then show ?thesis using 4 by simp
  next
    case (Inr u)
    obtain h s5 where ct:
      "(if hasLegacyContentToMigrate b then migrateLegacyDataJsonContent d b s4
        else (False, s4)) = (h, s5)"
      by (cases "if hasLegacyContentToMigrate b then migrateLegacyDataJsonContent d b s4
        else (False, s4)")
    have 5: "spares CC_SETTINGS_PATH s4 s5"
      using ct content_spares [of d b s4 h s5]
      by (cases "hasLegacyContentToMigrate b") (auto simp: spares_refl)
    have fin: "(if (hasStateToMigrate b \<or> hasLegacyContentToMigrate b) \<and> \<not> h
                then clearLegacyDataJson s5 else (Inr (), s5)) = (r, s')"
      using assms Some stt Inr ct by simp
    have 6: "spares CC_SETTINGS_PATH s5 s'"
      using fin clear_spares [of s5 r s']
      by (cases "(hasStateToMigrate b \<or> hasLegacyContentToMigrate b) \<and> \<not> h")
        (auto simp: spares_refl)
    from 4 5 6 show ?thesis by (blast intro: spares_trans)
  qed
qed

lemma runMigrations_files_settled:
  assumes run: "runMigrations d s = (Inr (), s')" and fl: "faultless (emitted s s')"
  shows "files_settled s'"
proof -
  let ?s2 = "log (Exists CLAUDIAN_SETTINGS_PATH) (log (Exists CC_SETTINGS_PATH) s)"
  have t2: "trace ?s2 = trace s @ [Exists CC_SETTINGS_PATH, Exists CLAUDIAN_SETTINGS_PATH]"
    by (simp add: log_def)
  obtain rs s3 where sp:
    "(if path_exists s CC_SETTINGS_PATH \<and> \<not> path_exists s CLAUDIAN_SETTINGS_PATH
      then migrateFromOldSettingsJson d ?s2 else (Inr (), ?s2)) = (rs, s3)"
    by (cases "if path_exists s CC_SETTINGS_PATH \<and> \<not> path_exists s CLAUDIAN_SETTINGS_PATH
      then migrateFromOldSettingsJson d ?s2 else (Inr (), ?s2)")
  note defs = runMigrations_def ccSettings_exists_def claudianSettings_exists_def
    adapter_exists_path Let_def loadDataJson_def
  have blob2: "blob ?s2 = blob s" by (simp add: log_def)
  have rsok: "rs = Inr ()" using run sp by (cases rs) (simp_all add: defs)
  have rest: "(case blob s of
        None \<Rightarrow> (Inr (), s3)
      | Some data \<Rightarrow>
     (case (if hasStateToMigrate data then migrateFromDataJson d data s3 else (Inr (), s3)) of
        (Inl e, s4) \<Rightarrow> (Inl e, s4)
      | (Inr state, s4) \<Rightarrow>
     (case (if hasLegacyContentToMigrate data then migrateLegacyDataJsonContent d data s4
            else (False, s4)) of
        (legacyContentHadErrors, s5) \<Rightarrow>
          if (hasStateToMigrate data \<or> hasLegacyContentToMigrate data)
             \<and> \<not> legacyContentHadErrors
          then clearLegacyDataJson s5
          else (Inr (), s5)))) = (Inr (), s')"
    using run sp rsok blob2 by (simp add: defs)
  have "\<exists>e3. trace s3 = trace ?s2 @ e3 \<and> blob s3 = blob s
          \<and> ((\<exists>c. WriteDropped CLAUDIAN_SETTINGS_PATH c \<in> set e3) \<or> files_settled s3)"
  proof (cases "path_exists s CC_SETTINGS_PATH \<and> \<not> path_exists s CLAUDIAN_SETTINGS_PATH")
    case True
    then have m: "migrateFromOldSettingsJson d ?s2 = (Inr (), s3)" using sp rsok by simp
    from split_run [OF m] have "blob s3 = blob s" by (auto simp: run_of_def log_def)
    then show ?thesis using split_settles [OF m] by blast
  next
    case False
    then have "s3 = ?s2" using sp by auto
    moreover have "files_settled ?s2" using False by (auto simp: files_settled_def)
    ultimately show ?thesis using blob2 by simp
  qed
  then obtain e3 where e3: "trace s3 = trace ?s2 @ e3" "blob s3 = blob s"
      "(\<exists>c. WriteDropped CLAUDIAN_SETTINGS_PATH c \<in> set e3) \<or> files_settled s3" by blast
  have sp3: "spares CC_SETTINGS_PATH s3 s'"
    using rest e3(2) rest_spares [of s3 d "Inr ()" s'] by simp
  then obtain e4 where e4: "trace s' = trace s3 @ e4" by (auto simp: spares_def)
  have "emitted s s' = [Exists CC_SETTINGS_PATH, Exists CLAUDIAN_SETTINGS_PATH] @ e3 @ e4"
    using t2 e3(1) e4 by (simp add: emitted_def)
  then have "\<And>c. WriteDropped CLAUDIAN_SETTINGS_PATH c \<notin> set e3"
    using faultless_mem [OF fl] by auto
  then have "files_settled s3" using e3(3) by blast
  then show ?thesis using sp3 by (rule files_settled_spares)
qed

section \<open>A second start-up\<close>

lemma settled_run:
  assumes fs: "files_settled s" and bs: "blob_settled s"
  shows "\<exists>evs. runMigrations d s = (Inr (), s\<lparr>trace := trace s @ evs\<rparr>)
           \<and> list_all (\<lambda>e. \<not> is_write e) evs"
proof -
  let ?s2 = "log (Exists CLAUDIAN_SETTINGS_PATH) (log (Exists CC_SETTINGS_PATH) s)"
  define pre2 where "pre2 = [Exists CC_SETTINGS_PATH, Exists CLAUDIAN_SETTINGS_PATH]"
  have s2: "?s2 = s\<lparr>trace := trace s @ pre2\<rparr>" by (simp add: log_def pre2_def)
  have "\<exists>e3. (if path_exists s CC_SETTINGS_PATH \<and> \<not> path_exists s CLAUDIAN_SETTINGS_PATH
             then migrateFromOldSettingsJson d ?s2 else (Inr (), ?s2))
            = (Inr (), s\<lparr>trace := trace s @ pre2 @ e3\<rparr>)
          \<and> (e3 = [] \<or> e3 = [Read CC_SETTINGS_PATH])"
  proof (cases "path_exists s CC_SETTINGS_PATH \<and> \<not> path_exists s CLAUDIAN_SETTINGS_PATH")
    case True
    with fs obtain old where "files s CC_SETTINGS_PATH = Some (JsonText old)"
        "hasClaudianFields old = Inr False"
      by (auto simp: files_settled_def)
    then have "migrateFromOldSettingsJson d ?s2
        = (Inr (), s\<lparr>trace := trace s @ pre2 @ [Read CC_SETTINGS_PATH]\<rparr>)"
      by (simp add: migrateFromOldSettingsJson_def adapter_read_def log_def pre2_def)
    with True have "(if path_exists s CC_SETTINGS_PATH \<and> \<not> path_exists s CLAUDIAN_SETTINGS_PATH
             then migrateFromOldSettingsJson d ?s2 else (Inr (), ?s2))
            = (Inr (), s\<lparr>trace := trace s @ pre2 @ [Read CC_SETTINGS_PATH]\<rparr>)" by simp
    then show ?thesis by blast
  next
    case False
    then have "(if path_exists s CC_SETTINGS_PATH \<and> \<not> path_exists s CLAUDIAN_SETTINGS_PATH
             then migrateFromOldSettingsJson d ?s2 else (Inr (), ?s2))
            = (Inr (), s\<lparr>trace := trace s @ pre2 @ []\<rparr>)" using s2 by auto
    then show ?thesis by blast
  qed
  then obtain e3 where sp:
    "(if path_exists s CC_SETTINGS_PATH \<and> \<not> path_exists s CLAUDIAN_SETTINGS_PATH
      then migrateFromOldSettingsJson d ?s2 else (Inr (), ?s2))
     = (Inr (), s\<lparr>trace := trace s @ pre2 @ e3\<rparr>)"
    "e3 = [] \<or> e3 = [Read CC_SETTINGS_PATH]" by blast
  have blob2: "blob ?s2 = blob s" by (simp add: log_def)
  have "runMigrations d s = (Inr (), s\<lparr>trace := trace s @ pre2 @ e3\<rparr>)"
  proof (cases "blob s")
    case None
    then show ?thesis using sp(1) blob2
      by (simp add: runMigrations_def ccSettings_exists_def claudianSettings_exists_def
          adapter_exists_path Let_def loadDataJson_def)
  next
    case (Some b)
    then have "\<not> hasStateToMigrate b" "\<not> hasLegacyContentToMigrate b"
      using bs by (simp_all add: blob_settled_def)
    then show ?thesis using sp(1) blob2 Some
      by (simp add: runMigrations_def ccSettings_exists_def claudianSettings_exists_def
          adapter_exists_path Let_def loadDataJson_def)
  qed
  moreover have "list_all (\<lambda>e. \<not> is_write e) (pre2 @ e3)"
    using sp(2) by (auto simp: pre2_def)
  ultimately show ?thesis by blast
qed

lemma ccSettings_load_again:
  assumes "ccSettings_load d s = (r, s')" and "files u = files s" and "folders u = folders s"
  shows "\<exists>evs. ccSettings_load d u = (r, u\<lparr>trace := trace u @ evs\<rparr>)
           \<and> s' = s\<lparr>trace := trace s @ evs\<rparr> \<and> list_all (\<lambda>e. \<not> is_write e) evs"
proof (cases "files s CC_SETTINGS_PATH \<noteq> None \<or> CC_SETTINGS_PATH \<in> folders s")
  case False
  then have "ccSettings_load d u = (r, u\<lparr>trace := trace u @ [Exists CC_SETTINGS_PATH]\<rparr>)"
      "s' = s\<lparr>trace := trace s @ [Exists CC_SETTINGS_PATH]\<rparr>"
    using assms by (auto simp: ccSettings_load_def adapter_exists_eff)
  moreover have "list_all (\<lambda>e. \<not> is_write e) [Exists CC_SETTINGS_PATH]" by simp
  ultimately show ?thesis by blast
next
  case True
  let ?evs = "[Exists CC_SETTINGS_PATH, Read CC_SETTINGS_PATH]"
  from True have "ccSettings_load d u = (r, u\<lparr>trace := trace u @ ?evs\<rparr>)"
      "s' = s\<lparr>trace := trace s @ ?evs\<rparr>"
    using assms
    by (auto simp: ccSettings_load_def adapter_exists_eff adapter_read_eff split: option.splits)
  moreover have "list_all (\<lambda>e. \<not> is_write e) ?evs" by simp
  ultimately show ?thesis by blast
qed

lemma claudianSettings_load_again:
  assumes "claudianSettings_load d s = (r, s')" and "files u = files s" and "folders u = folders s"
  shows "\<exists>evs. claudianSettings_load d u = (r, u\<lparr>trace := trace u @ evs\<rparr>)
           \<and> s' = s\<lparr>trace := trace s @ evs\<rparr> \<and> list_all (\<lambda>e. \<not> is_write e) evs"
proof (cases "files s CLAUDIAN_SETTINGS_PATH \<noteq> None \<or> CLAUDIAN_SETTINGS_PATH \<in> folders s")
  case False
  then have "claudianSettings_load d u = (r, u\<lparr>trace := trace u @ [Exists CLAUDIAN_SETTINGS_PATH]\<rparr>)"
      "s' = s\<lparr>trace := trace s @ [Exists CLAUDIAN_SETTINGS_PATH]\<rparr>"
    using assms by (auto simp: claudianSettings_load_def adapter_exists_eff)
  moreover have "list_all (\<lambda>e. \<not> is_write e) [Exists CLAUDIAN_SETTINGS_PATH]" by simp
  ultimately show ?thesis by blast
next
  case True
  let ?evs = "[Exists CLAUDIAN_SETTINGS_PATH, Read CLAUDIAN_SETTINGS_PATH]"
  from True have "claudianSettings_load d u = (r, u\<lparr>trace := trace u @ ?evs\<rparr>)"
      "s' = s\<lparr>trace := trace s @ ?evs\<rparr>"
    using assms
    by (auto simp: claudianSettings_load_def adapter_exists_eff adapter_read_eff
        split: option.splits sum.splits)
  moreover have "list_all (\<lambda>e. \<not> is_write e) ?evs" by simp
  ultimately show ?thesis by blast
qed

lemma ensureDirectories_eff:
  "trace (ensureDirectories s) = trace s \<and> files (ensureDirectories s) = files s
   \<and> blob (ensureDirectories s) = blob s
   \<and> folders (ensureDirectories s)
       = insert SESSIONS_PATH (insert COMMANDS_PATH (insert CLAUDE_PATH (folders s)))"
  by (simp add: ensureDirectories_def adapter_ensureFolder_def)

lemma ensureDirectories_again:
  "folders s1 = folders (ensureDirectories s) \<Longrightarrow> ensureDirectories s1 = s1"
  by (simp add: ensureDirectories_def adapter_ensureFolder_def insert_absorb)

lemma faultless_append [simp]: "faultless (a @ b) = (faultless a \<and> faultless b)"
  by (simp add: faultless_def)

text \<open>Claim C3, amended: when a call of \<^verbatim>\<open>initialize\<close> completes without fault (no item error
  was caught, no write failed and none was silently lost), a second call right after it
  completes with the same settings, emits no write to the vault and no \<^verbatim>\<open>saveData\<close>, and
  leaves the files, the blob and the folders as they are.\<close>

theorem C3_initialize_idempotent_amended:
  "initialize d s = (Inr settings, s1) \<and> faultless (emitted s s1) \<longrightarrow>
     (\<exists>s2. initialize d s1 = (Inr settings, s2)
           \<and> list_all (\<lambda>e. \<not> is_write e) (emitted s1 s2)
           \<and> files s2 = files s1 \<and> blob s2 = blob s1 \<and> folders s2 = folders s1)"
proof
  assume a: "initialize d s = (Inr settings, s1) \<and> faultless (emitted s s1)"
  then have init: "initialize d s = (Inr settings, s1)" and fl: "faultless (emitted s s1)"
    by simp_all
  let ?s0 = "ensureDirectories s"
  obtain rm sm where rm: "runMigrations d ?s0 = (rm, sm)" by (cases "runMigrations d ?s0")
  have rmok: "rm = Inr ()" using init rm by (cases rm) (simp_all add: initialize_def)
  obtain rc sa where rc: "ccSettings_load d sm = (rc, sa)" by (cases "ccSettings_load d sm")
  obtain ccv where rcok: "rc = Inr ccv"
    using init rm rmok rc by (cases rc) (simp_all add: initialize_def)
  obtain rl sb where rl: "claudianSettings_load d sa = (rl, sb)"
    by (cases "claudianSettings_load d sa")
  obtain clv where rlok: "rl = Inr clv"
    using init rm rmok rc rcok rl by (cases rl) (simp_all add: initialize_def)
  have fin: "settings = \<lparr>cc = ccv, claudian = clv\<rparr>" "s1 = sb"
    using init rm rmok rc rcok rl rlok by (simp_all add: initialize_def)
  from runMigrations_outcomes [OF rm] obtain em where
    em: "trace sm = trace ?s0 @ em" by (auto simp: migrations_outcome_def)
  from ccSettings_load_again [OF rc refl refl] obtain ea where
    ea: "sa = sm\<lparr>trace := trace sm @ ea\<rparr>" by blast
  from claudianSettings_load_again [OF rl refl refl] obtain eb where
    eb: "sb = sa\<lparr>trace := trace sa @ eb\<rparr>" by blast
  have tr0: "trace ?s0 = trace s" using ensureDirectories_eff [of s] by simp
  have "emitted s s1 = em @ ea @ eb"
    using em ea eb tr0 fin(2) by (simp add: emitted_def)
  then have "faultless em" using fl by simp
  then have flm: "faultless (emitted ?s0 sm)" using em by (simp add: emitted_def)
  have rm': "runMigrations d ?s0 = (Inr (), sm)" using rm rmok by simp
  have fsm: "files_settled sm" using rm' flm by (rule runMigrations_files_settled)
  have bsm: "blob_settled sm" "folders sm = folders ?s0"
    using runMigrations_blob_settled [OF rm' flm] by simp_all
  have same: "files s1 = files sm" "folders s1 = folders sm" "blob s1 = blob sm"
    using ea eb fin(2) by simp_all
  have fs1: "files_settled s1" using fsm same by (simp add: files_settled_def path_exists_def)
  have bs1: "blob_settled s1" using bsm(1) same by (simp add: blob_settled_def)
  have ed: "ensureDirectories s1 = s1"
    using same(2) bsm(2) by (simp add: ensureDirectories_again)
  from settled_run [OF fs1 bs1] obtain e1 where
    e1: "runMigrations d s1 = (Inr (), s1\<lparr>trace := trace s1 @ e1\<rparr>)"
        "list_all (\<lambda>e. \<not> is_write e) e1" by blast
  let ?t1 = "s1\<lparr>trace := trace s1 @ e1\<rparr>"
  have "files ?t1 = files sm" "folders ?t1 = folders sm" using same by simp_all
  from ccSettings_load_again [OF rc this] obtain e2 where
    e2: "ccSettings_load d ?t1 = (rc, ?t1\<lparr>trace := trace ?t1 @ e2\<rparr>)"
        "list_all (\<lambda>e. \<not> is_write e) e2" by blast
  let ?t2 = "?t1\<lparr>trace := trace ?t1 @ e2\<rparr>"
  have "files ?t2 = files sa" "folders ?t2 = folders sa" using same ea by simp_all
  from claudianSettings_load_again [OF rl this] obtain e3 where
    e3: "claudianSettings_load d ?t2 = (rl, ?t2\<lparr>trace := trace ?t2 @ e3\<rparr>)"
        "list_all (\<lambda>e. \<not> is_write e) e3" by blast
  let ?t3 = "?t2\<lparr>trace := trace ?t2 @ e3\<rparr>"
  have "initialize d s1 = (Inr settings, ?t3)"
    using ed e1(1) e2(1) e3(1) rcok rlok fin(1) by (simp add: initialize_def)
  moreover have "emitted s1 ?t3 = e1 @ e2 @ e3" by (simp add: emitted_def)
  then have "list_all (\<lambda>e. \<not> is_write e) (emitted s1 ?t3)" using e1(2) e2(2) e3(2) by simp
  moreover have "files ?t3 = files s1" "blob ?t3 = blob s1" "folders ?t3 = folders s1" by simp_all
  ultimately show "\<exists>s2. initialize d s1 = (Inr settings, s2)
           \<and> list_all (\<lambda>e. \<not> is_write e) (emitted s1 s2)
           \<and> files s2 = files s1 \<and> blob s2 = blob s1 \<and> folders s2 = folders s1"
    by blast
qed

section \<open>The second start-up on the vaults of the tests\<close>

text \<open>Claim C3 on the vault with one command in the blob and every write going through: the
  first call migrates the command and clears the blob, the second one returns the same
  settings and writes nothing.\<close>

theorem C3_witness:
  "fst (initialize mockDeps commandVault)
     = Inr \<lparr>cc = JObj [],
            claudian = [(''userName'', JStr []), (''enableBlocklist'', JBool True),
                        (''lastClaudeModel'', JStr ''haiku''), (''lastCustomModel'', JStr []),
                        (''lastEnvHash'', JStr [])]\<rparr>
   \<and> faultless (emitted commandVault (snd (initialize mockDeps commandVault)))
   \<and> SaveData [] \<in> set (emitted commandVault (snd (initialize mockDeps commandVault)))
   \<and> (\<exists>s2. initialize mockDeps (snd (initialize mockDeps commandVault))
              = (Inr \<lparr>cc = JObj [],
                      claudian = [(''userName'', JStr []), (''enableBlocklist'', JBool True),
                                  (''lastClaudeModel'', JStr ''haiku''),
                                  (''lastCustomModel'', JStr []), (''lastEnvHash'', JStr [])]\<rparr>,
                 s2)
            \<and> list_all (\<lambda>e. \<not> is_write e) (emitted (snd (initialize mockDeps commandVault)) s2)
            \<and> files s2 = files (snd (initialize mockDeps commandVault))
            \<and> blob s2 = blob (snd (initialize mockDeps commandVault))
            \<and> folders s2 = folders (snd (initialize mockDeps commandVault)))"
proof -
  let ?settings = "\<lparr>cc = JObj [],
            claudian = [(''userName'', JStr []), (''enableBlocklist'', JBool True),
                        (''lastClaudeModel'', JStr ''haiku''), (''lastCustomModel'', JStr []),
                        (''lastEnvHash'', JStr [])]\<rparr>"
  have a: "fst (initialize mockDeps commandVault) = Inr ?settings" by code_simp
  have b: "faultless (emitted commandVault (snd (initialize mockDeps commandVault)))"
    by code_simp
  have c: "SaveData [] \<in> set (emitted commandVault (snd (initialize mockDeps commandVault)))"
    by code_simp
  have c1: "initialize mockDeps commandVault
      = (Inr ?settings, snd (initialize mockDeps commandVault))"
    using a by (metis prod.collapse)
  note t = C3_initialize_idempotent_amended [of mockDeps commandVault ?settings
      "snd (initialize mockDeps commandVault)", THEN mp, OF conjI [OF c1 b]]
  from a b c t show ?thesis by blast
qed

text \<open>Claim C3 does not hold for every vault.  In the vault of the test of the failing command
  write, with an environment hash in the blob, the first call completes; the blob is not
  cleared, so the second call runs the state migration again, which writes
  \<^verbatim>\<open>claudian-settings.json\<close> once more, and retries the command.\<close>

theorem C3_counterexample:
  "fst (initialize mockDeps retryVault)
     = Inr \<lparr>cc = JObj [],
            claudian = [(''userName'', JStr []), (''enableBlocklist'', JBool True),
                        (''lastClaudeModel'', JStr ''haiku''), (''lastCustomModel'', JStr []),
                        (''lastEnvHash'', JStr ''new''),
                        (''blockedCommands'',
                         JObj [(''unix'', JArr [JStr ''rm -rf'']),
                               (''windows'', JArr [JStr ''Format-Volume''])]),
                        (''claudeCliPath'', JStr []), (''claudeCliPathsByHost'', JObj [])]\<rparr>
   \<and> filter is_write
        (emitted (snd (initialize mockDeps retryVault))
           (snd (initialize mockDeps (snd (initialize mockDeps retryVault)))))
     = [Wrote CLAUDIAN_SETTINGS_PATH
          (JsonText (JObj
             [(''userName'', JStr []), (''enableBlocklist'', JBool True),
              (''lastClaudeModel'', JStr ''haiku''), (''lastCustomModel'', JStr []),
              (''lastEnvHash'', JStr ''new''),
              (''blockedCommands'',
               JObj [(''unix'', JArr [JStr ''rm -rf'']),
                     (''windows'', JArr [JStr ''Format-Volume''])]),
              (''claudeCliPath'', JStr []), (''claudeCliPathsByHost'', JObj [])])),
        WriteFailed ''.claude/commands/review.md'']"
proof -
  have a: "fst (initialize mockDeps retryVault)
     = Inr \<lparr>cc = JObj [],
            claudian = [(''userName'', JStr []), (''enableBlocklist'', JBool True),
                        (''lastClaudeModel'', JStr ''haiku''), (''lastCustomModel'', JStr []),
                        (''lastEnvHash'', JStr ''new''),
                        (''blockedCommands'',
                         JObj [(''unix'', JArr [JStr ''rm -rf'']),
                               (''windows'', JArr [JStr ''Format-Volume''])]),
                        (''claudeCliPath'', JStr []), (''claudeCliPathsByHost'', JObj [])]\<rparr>"
    by code_simp
  have b: "filter is_write
        (emitted (snd (initialize mockDeps retryVault))
           (snd (initialize mockDeps (snd (initialize mockDeps retryVault)))))
     = [Wrote CLAUDIAN_SETTINGS_PATH
          (JsonText (JObj
             [(''userName'', JStr []), (''enableBlocklist'', JBool True),
              (''lastClaudeModel'', JStr ''haiku''), (''lastCustomModel'', JStr []),
              (''lastEnvHash'', JStr ''new''),
              (''blockedCommands'',
               JObj [(''unix'', JArr [JStr ''rm -rf'']),
                     (''windows'', JArr [JStr ''Format-Volume''])]),
              (''claudeCliPath'', JStr []), (''claudeCliPathsByHost'', JObj [])])),
        WriteFailed ''.claude/commands/review.md'']"
    by code_simp
  from a b show ?thesis by blast
qed

section \<open>A full run of the split migration\<close>

lemma adapter_write_eff:
  "adapter_write p c s =
     (if wmode s p = WriteThrows then Inl (WriteError p) else Inr (),
      (if wmode s p = WriteOk then s\<lparr>files := (files s)(p \<mapsto> c)\<rparr> else s)
        \<lparr>trace := trace s @ [writeEvent s p c]\<rparr>)"
  by (cases "wmode s p") (simp_all add: adapter_write_def log_def writeEvent_def)

lemma split_proceeds:
  assumes "files s CC_SETTINGS_PATH = Some (JsonText old)"
      and "hasClaudianFields old = Inr True"
      and "migratedEnvironmentVariables (prop_of old ''environmentVariables'')
             (prop_of old ''env'') = Inr ev"
  shows "migrateFromOldSettingsJson d s =
     (case adapter_write CLAUDIAN_SETTINGS_PATH (JsonText (JObj (claudianFields d old ev)))
             (log (Read CC_SETTINGS_PATH) s) of
        (Inl e, s2) \<Rightarrow> (Inl e, s2)
      | (Inr saved, s2) \<Rightarrow>
     (case claudianSettings_load d s2 of
        (Inl e, s3) \<Rightarrow> (Inl e, s3)
      | (Inr savedClaudian, s3) \<Rightarrow>
          if obj_get savedClaudian ''userName'' = None then (Inl VerificationError, s3)
          else adapter_write CC_SETTINGS_PATH (JsonText (JObj (ccSettingsFor d old))) s3))"
  using assms
  unfolding migrateFromOldSettingsJson_def claudianSettings_save_def ccSettings_save_def
  by (simp add: adapter_read_def log_def)

lemma split_full:
  assumes cc: "files s CC_SETTINGS_PATH = Some (JsonText old)"
      and hf: "hasClaudianFields old = Inr True"
      and ev: "migratedEnvironmentVariables (prop_of old ''environmentVariables'')
             (prop_of old ''env'') = Inr ev"
      and run: "migrateFromOldSettingsJson d s = (r, s')"
  shows "(wmode s CLAUDIAN_SETTINGS_PATH = WriteThrows
          \<and> r = Inl (WriteError CLAUDIAN_SETTINGS_PATH)
          \<and> emitted s s' = [Read CC_SETTINGS_PATH, WriteFailed CLAUDIAN_SETTINGS_PATH]
          \<and> files s' = files s)
       \<or> (wmode s CLAUDIAN_SETTINGS_PATH \<noteq> WriteThrows
          \<and> files s' CLAUDIAN_SETTINGS_PATH
              = files (savedVault s (claudianFields d old ev)) CLAUDIAN_SETTINGS_PATH
          \<and> (\<exists>rd. (rd = [] \<or> rd = [Read CLAUDIAN_SETTINGS_PATH])
               \<and> ((\<exists>e. readBack d s (claudianFields d old ev) = Inl e \<and> r = Inl e
                        \<and> emitted s s' =
                            [Read CC_SETTINGS_PATH,
                             writeEvent s CLAUDIAN_SETTINGS_PATH
                               (JsonText (JObj (claudianFields d old ev))),
                             Exists CLAUDIAN_SETTINGS_PATH] @ rd
                        \<and> files s' CC_SETTINGS_PATH = files s CC_SETTINGS_PATH)
                  \<or> (\<exists>saved. readBack d s (claudianFields d old ev) = Inr saved
                        \<and> obj_get saved ''userName'' = None \<and> r = Inl VerificationError
                        \<and> emitted s s' =
                            [Read CC_SETTINGS_PATH,
                             writeEvent s CLAUDIAN_SETTINGS_PATH
                               (JsonText (JObj (claudianFields d old ev))),
                             Exists CLAUDIAN_SETTINGS_PATH] @ rd
                        \<and> files s' CC_SETTINGS_PATH = files s CC_SETTINGS_PATH)
                  \<or> (\<exists>saved. readBack d s (claudianFields d old ev) = Inr saved
                        \<and> obj_get saved ''userName'' \<noteq> None
                        \<and> emitted s s' =
                            [Read CC_SETTINGS_PATH,
                             writeEvent s CLAUDIAN_SETTINGS_PATH
                               (JsonText (JObj (claudianFields d old ev))),
                             Exists CLAUDIAN_SETTINGS_PATH] @ rd
                            @ [writeEvent s CC_SETTINGS_PATH (JsonText (JObj (ccSettingsFor d old)))]
                        \<and> r = (if wmode s CC_SETTINGS_PATH = WriteThrows
                                then Inl (WriteError CC_SETTINGS_PATH) else Inr ())
                        \<and> files s' CC_SETTINGS_PATH =
                            (if wmode s CC_SETTINGS_PATH = WriteOk
                             then Some (JsonText (JObj (ccSettingsFor d old)))
                             else files s CC_SETTINGS_PATH)))))"
proof -
  let ?cf = "claudianFields d old ev"
  let ?c = "JsonText (JObj ?cf)"
  let ?c2 = "JsonText (JObj (ccSettingsFor d old))"
  let ?s1 = "log (Read CC_SETTINGS_PATH) s"
  let ?w1 = "writeEvent s CLAUDIAN_SETTINGS_PATH ?c"
  note go = split_proceeds [OF cc hf ev, of d]
  have w1: "wmode ?s1 = wmode s" "writeEvent ?s1 = writeEvent s"
    by (simp_all add: log_def writeEvent_def fun_eq_iff)
  show ?thesis
  proof (cases "wmode s CLAUDIAN_SETTINGS_PATH = WriteThrows")
    case True
    then have "r = Inl (WriteError CLAUDIAN_SETTINGS_PATH)"
        "s' = ?s1\<lparr>trace := trace ?s1 @ [WriteFailed CLAUDIAN_SETTINGS_PATH]\<rparr>"
      using run go w1 by (simp_all add: adapter_write_eff writeEvent_def)
    then have "r = Inl (WriteError CLAUDIAN_SETTINGS_PATH)"
        "emitted s s' = [Read CC_SETTINGS_PATH, WriteFailed CLAUDIAN_SETTINGS_PATH]"
        "files s' = files s"
      by (simp_all add: emitted_def log_def)
    with True show ?thesis by blast
  next
    case False
    define s2 where "s2 = snd (adapter_write CLAUDIAN_SETTINGS_PATH ?c ?s1)"
    have aw: "adapter_write CLAUDIAN_SETTINGS_PATH ?c ?s1 = (Inr (), s2)"
      using False w1 by (simp add: s2_def adapter_write_eff)
    have s2: "trace s2 = trace s @ [Read CC_SETTINGS_PATH, ?w1]"
        "files s2 = files (savedVault s ?cf)" "folders s2 = folders (savedVault s ?cf)"
        "wmode s2 = wmode s"
      using w1 by (simp_all add: s2_def adapter_write_eff savedVault_def log_def)
    obtain rl s3 where ld: "claudianSettings_load d s2 = (rl, s3)"
      by (cases "claudianSettings_load d s2")
    from claudianSettings_load_events [OF ld] obtain rd where
      rd: "run_of s2 s3 (Exists CLAUDIAN_SETTINGS_PATH # rd)" "files s3 = files s2"
          "rd = [] \<or> rd = [Read CLAUDIAN_SETTINGS_PATH]" by blast
    from claudianSettings_load_again [OF ld s2(2) [symmetric] s2(3) [symmetric]]
    have rb: "readBack d s ?cf = rl" by (auto simp: readBack_def)
    have s3: "trace s3 = trace s @ [Read CC_SETTINGS_PATH, ?w1, Exists CLAUDIAN_SETTINGS_PATH] @ rd"
        "wmode s3 = wmode s"
      using rd(1) s2(1,4) by (simp_all add: run_of_def)
    have f3: "files s3 CC_SETTINGS_PATH = files s CC_SETTINGS_PATH"
        "files s3 CLAUDIAN_SETTINGS_PATH = files (savedVault s ?cf) CLAUDIAN_SETTINGS_PATH"
      using rd(2) s2(2) by (simp_all add: savedVault_def)
    have go2: "(r, s') =
       (case rl of Inl e \<Rightarrow> (Inl e, s3)
        | Inr savedClaudian \<Rightarrow>
            if obj_get savedClaudian ''userName'' = None then (Inl VerificationError, s3)
            else adapter_write CC_SETTINGS_PATH ?c2 s3)"
      using run go aw ld by (simp split: sum.splits)
    have "\<exists>rd. (rd = [] \<or> rd = [Read CLAUDIAN_SETTINGS_PATH])
               \<and> ((\<exists>e. readBack d s ?cf = Inl e \<and> r = Inl e
                        \<and> emitted s s' = [Read CC_SETTINGS_PATH, ?w1, Exists CLAUDIAN_SETTINGS_PATH] @ rd
                        \<and> files s' CC_SETTINGS_PATH = files s CC_SETTINGS_PATH)
                  \<or> (\<exists>saved. readBack d s ?cf = Inr saved
                        \<and> obj_get saved ''userName'' = None \<and> r = Inl VerificationError
                        \<and> emitted s s' = [Read CC_SETTINGS_PATH, ?w1, Exists CLAUDIAN_SETTINGS_PATH] @ rd
                        \<and> files s' CC_SETTINGS_PATH = files s CC_SETTINGS_PATH)
                  \<or> (\<exists>saved. readBack d s ?cf = Inr saved
                        \<and> obj_get saved ''userName'' \<noteq> None
                        \<and> emitted s s' = [Read CC_SETTINGS_PATH, ?w1, Exists CLAUDIAN_SETTINGS_PATH] @ rd
                            @ [writeEvent s CC_SETTINGS_PATH ?c2]
                        \<and> r = (if wmode s CC_SETTINGS_PATH = WriteThrows
                                then Inl (WriteError CC_SETTINGS_PATH) else Inr ())
                        \<and> files s' CC_SETTINGS_PATH =
                            (if wmode s CC_SETTINGS_PATH = WriteOk then Some ?c2
                             else files s CC_SETTINGS_PATH)))
          \<and> files s' CLAUDIAN_SETTINGS_PATH = files (savedVault s ?cf) CLAUDIAN_SETTINGS_PATH"
    proof (cases rl)
      case (Inl e)
      then have "r = Inl e" "s' = s3" using go2 by simp_all
      then have "readBack d s ?cf = Inl e" "r = Inl e"
          "emitted s s' = [Read CC_SETTINGS_PATH, ?w1, Exists CLAUDIAN_SETTINGS_PATH] @ rd"
          "files s' CC_SETTINGS_PATH = files s CC_SETTINGS_PATH"
          "files s' CLAUDIAN_SETTINGS_PATH = files (savedVault s ?cf) CLAUDIAN_SETTINGS_PATH"
        using rb Inl s3(1) f3 by (simp_all add: emitted_def)
      then show ?thesis using rd(3) by blast
    next
      case (Inr saved)
      show ?thesis
      proof (cases "obj_get saved ''userName'' = None")
        case True
        then have "r = Inl VerificationError" "s' = s3" using go2 Inr by simp_all
        then have "readBack d s ?cf = Inr saved" "r = Inl VerificationError"
            "emitted s s' = [Read CC_SETTINGS_PATH, ?w1, Exists CLAUDIAN_SETTINGS_PATH] @ rd"
            "files s' CC_SETTINGS_PATH = files s CC_SETTINGS_PATH"
            "files s' CLAUDIAN_SETTINGS_PATH = files (savedVault s ?cf) CLAUDIAN_SETTINGS_PATH"
          using rb Inr s3(1) f3 by (simp_all add: emitted_def)
        then show ?thesis using rd(3) True by blast
      next
        case False
        then have fin: "(r, s') = adapter_write CC_SETTINGS_PATH ?c2 s3"
          using go2 Inr by (simp del: not_None_eq)
        have we: "writeEvent s3 CC_SETTINGS_PATH ?c2 = writeEvent s CC_SETTINGS_PATH ?c2"
          using s3(2) by (simp add: writeEvent_def)
        have r: "r = (if wmode s CC_SETTINGS_PATH = WriteThrows
                                then Inl (WriteError CC_SETTINGS_PATH) else Inr ())"
          using fin s3(2) by (simp add: adapter_write_eff)
        have tr: "trace s' = trace s @ [Read CC_SETTINGS_PATH, ?w1, Exists CLAUDIAN_SETTINGS_PATH] @ rd
                            @ [writeEvent s CC_SETTINGS_PATH ?c2]"
          using fin s3 we by (simp add: adapter_write_eff)
        have fcc: "files s' CC_SETTINGS_PATH =
                            (if wmode s CC_SETTINGS_PATH = WriteOk then Some ?c2
                             else files s CC_SETTINGS_PATH)"
          using fin s3(2) f3(1) by (simp add: adapter_write_eff)
        have fcl: "files s' CLAUDIAN_SETTINGS_PATH = files (savedVault s ?cf) CLAUDIAN_SETTINGS_PATH"
          using fin f3(2) by (simp add: adapter_write_eff)
        have em: "emitted s s' = [Read CC_SETTINGS_PATH, ?w1, Exists CLAUDIAN_SETTINGS_PATH] @ rd
                            @ [writeEvent s CC_SETTINGS_PATH ?c2]"
          using tr by (simp add: emitted_def)
        have "readBack d s ?cf = Inr saved" using rb Inr by simp
        then show ?thesis using False r em fcc fcl rd(3) by blast
      qed
    qed
    then show ?thesis using False by blast
  qed
qed

section \<open>The verification gate\<close>

lemma readBack_error: "readBack d s settings = Inl e \<Longrightarrow> e \<noteq> VerificationError"
proof -
  assume a: "readBack d s settings = Inl e"
  obtain r s1 where l: "claudianSettings_load d (savedVault s settings) = (r, s1)"
    by (cases "claudianSettings_load d (savedVault s settings)")
  then have "claudianSettings_load d (savedVault s settings) = (Inl e, s1)"
    using a by (simp add: readBack_def)
  then show ?thesis by (rule load_error)
qed

lemma writeEvent_to [simp]: "is_write_to q (writeEvent s p c) = (p = q)"
  by (cases "wmode s p") (simp_all add: writeEvent_def)

lemma split_early:
  assumes run: "migrateFromOldSettingsJson d s = (r, s')"
      and no: "\<not> (\<exists>old ev. files s CC_SETTINGS_PATH = Some (JsonText old)
                  \<and> hasClaudianFields old = Inr True
                  \<and> migratedEnvironmentVariables (prop_of old ''environmentVariables'')
                       (prop_of old ''env'') = Inr ev)"
  shows "s' = log (Read CC_SETTINGS_PATH) s \<and> r \<noteq> Inl VerificationError"
  using split_anatomy [OF run] no by blast

text \<open>Claim C2: in every run of the split migration, a write to \<^verbatim>\<open>settings.json\<close> is attempted
  only as the last step, after the read of the legacy file, the write of the plugin
  settings record built from it (which the vault takes, or silently loses) and the
  read-back; at that point the plugin settings file is as the save left it and the record
  read back from it defines \<^verbatim>\<open>userName\<close>.  Whenever the record read back does not define
  \<^verbatim>\<open>userName\<close>, the run ends in the verification error; and a run that ends in the
  verification error is one whose read-back lacks \<^verbatim>\<open>userName\<close>, it has attempted no
  write to \<^verbatim>\<open>settings.json\<close>, and that file has the text it had before, as after every
  run that throws.\<close>

theorem C2_verification_gate:
  "migrateFromOldSettingsJson d s = (r, s') \<longrightarrow>
     (list_ex (is_write_to CC_SETTINGS_PATH) (emitted s s') \<longrightarrow>
        (\<exists>old ev rd saved.
            files s CC_SETTINGS_PATH = Some (JsonText old)
            \<and> migratedEnvironmentVariables (prop_of old ''environmentVariables'')
                 (prop_of old ''env'') = Inr ev
            \<and> (rd = [] \<or> rd = [Read CLAUDIAN_SETTINGS_PATH])
            \<and> emitted s s' =
                 [Read CC_SETTINGS_PATH,
                  writeEvent s CLAUDIAN_SETTINGS_PATH (JsonText (JObj (claudianFields d old ev))),
                  Exists CLAUDIAN_SETTINGS_PATH] @ rd
                 @ [writeEvent s CC_SETTINGS_PATH (JsonText (JObj (ccSettingsFor d old)))]
            \<and> wmode s CLAUDIAN_SETTINGS_PATH \<noteq> WriteThrows
            \<and> files s' CLAUDIAN_SETTINGS_PATH
                = files (savedVault s (claudianFields d old ev)) CLAUDIAN_SETTINGS_PATH
            \<and> readBack d s (claudianFields d old ev) = Inr saved
            \<and> obj_get saved ''userName'' \<noteq> None))
     \<and> (\<forall>old ev saved.
            files s CC_SETTINGS_PATH = Some (JsonText old)
            \<and> hasClaudianFields old = Inr True
            \<and> migratedEnvironmentVariables (prop_of old ''environmentVariables'')
                 (prop_of old ''env'') = Inr ev
            \<and> wmode s CLAUDIAN_SETTINGS_PATH \<noteq> WriteThrows
            \<and> readBack d s (claudianFields d old ev) = Inr saved
            \<and> obj_get saved ''userName'' = None
          \<longrightarrow> r = Inl VerificationError)
     \<and> (r = Inl VerificationError \<longrightarrow>
          files s' CC_SETTINGS_PATH = files s CC_SETTINGS_PATH
          \<and> \<not> list_ex (is_write_to CC_SETTINGS_PATH) (emitted s s')
          \<and> (\<exists>old ev saved.
                files s CC_SETTINGS_PATH = Some (JsonText old)
                \<and> readBack d s (claudianFields d old ev) = Inr saved
                \<and> obj_get saved ''userName'' = None))
     \<and> (r \<noteq> Inr () \<longrightarrow> files s' CC_SETTINGS_PATH = files s CC_SETTINGS_PATH)"
  (is "_ \<longrightarrow> ?A \<and> ?B \<and> ?C \<and> ?D")
proof
  assume run: "migrateFromOldSettingsJson d s = (r, s')"
  show "?A \<and> ?B \<and> ?C \<and> ?D"
  proof (cases "\<exists>old ev. files s CC_SETTINGS_PATH = Some (JsonText old)
                  \<and> hasClaudianFields old = Inr True
                  \<and> migratedEnvironmentVariables (prop_of old ''environmentVariables'')
                       (prop_of old ''env'') = Inr ev")
    case False
    from split_early [OF run False] have e: "s' = log (Read CC_SETTINGS_PATH) s"
        "r \<noteq> Inl VerificationError" by simp_all
    have em: "emitted s s' = [Read CC_SETTINGS_PATH]" using e(1) by (simp add: emitted_def log_def)
    have a: ?A using em by simp
    have b: ?B using False by blast
    have c: ?C using e(2) by simp
    have d: ?D using e(1) by (simp add: log_def)
    from a b c d show ?thesis by blast
  next
    case True
    then obtain old ev where h: "files s CC_SETTINGS_PATH = Some (JsonText old)"
        "hasClaudianFields old = Inr True"
        "migratedEnvironmentVariables (prop_of old ''environmentVariables'')
                       (prop_of old ''env'') = Inr ev" by blast
    let ?cf = "claudianFields d old ev"
    let ?w1 = "writeEvent s CLAUDIAN_SETTINGS_PATH (JsonText (JObj ?cf))"
    let ?w2 = "writeEvent s CC_SETTINGS_PATH (JsonText (JObj (ccSettingsFor d old)))"
    have uniq: "\<And>old' ev'. files s CC_SETTINGS_PATH = Some (JsonText old') \<Longrightarrow>
        migratedEnvironmentVariables (prop_of old' ''environmentVariables'')
                       (prop_of old' ''env'') = Inr ev' \<Longrightarrow> old' = old \<and> ev' = ev"
      using h by auto
    from split_full [OF h run] consider
      (throws) "wmode s CLAUDIAN_SETTINGS_PATH = WriteThrows"
        "r = Inl (WriteError CLAUDIAN_SETTINGS_PATH)"
        "emitted s s' = [Read CC_SETTINGS_PATH, WriteFailed CLAUDIAN_SETTINGS_PATH]"
        "files s' = files s"
    | (unread) rd e where "wmode s CLAUDIAN_SETTINGS_PATH \<noteq> WriteThrows"
        "readBack d s ?cf = Inl e" "r = Inl e"
        "emitted s s' = [Read CC_SETTINGS_PATH, ?w1, Exists CLAUDIAN_SETTINGS_PATH] @ rd"
        "rd = [] \<or> rd = [Read CLAUDIAN_SETTINGS_PATH]"
        "files s' CC_SETTINGS_PATH = files s CC_SETTINGS_PATH"
    | (unverified) rd saved where "wmode s CLAUDIAN_SETTINGS_PATH \<noteq> WriteThrows"
        "readBack d s ?cf = Inr saved" "obj_get saved ''userName'' = None"
        "r = Inl VerificationError"
        "emitted s s' = [Read CC_SETTINGS_PATH, ?w1, Exists CLAUDIAN_SETTINGS_PATH] @ rd"
        "rd = [] \<or> rd = [Read CLAUDIAN_SETTINGS_PATH]"
        "files s' CC_SETTINGS_PATH = files s CC_SETTINGS_PATH"
    | (verified) rd saved where "wmode s CLAUDIAN_SETTINGS_PATH \<noteq> WriteThrows"
        "files s' CLAUDIAN_SETTINGS_PATH = files (savedVault s ?cf) CLAUDIAN_SETTINGS_PATH"
        "readBack d s ?cf = Inr saved" "obj_get saved ''userName'' \<noteq> None"
        "emitted s s' = [Read CC_SETTINGS_PATH, ?w1, Exists CLAUDIAN_SETTINGS_PATH] @ rd @ [?w2]"
        "rd = [] \<or> rd = [Read CLAUDIAN_SETTINGS_PATH]"
        "r = (if wmode s CC_SETTINGS_PATH = WriteThrows
              then Inl (WriteError CC_SETTINGS_PATH) else Inr ())"
        "files s' CC_SETTINGS_PATH =
           (if wmode s CC_SETTINGS_PATH = WriteOk
            then Some (JsonText (JObj (ccSettingsFor d old))) else files s CC_SETTINGS_PATH)"
      by blast
    then show ?thesis
    proof cases
      case throws
      have a: ?A using throws(3) by simp
      have b: ?B using throws(1) by blast
      have c: ?C using throws(2) by simp
      have d: ?D using throws(4) by simp
      from a b c d show ?thesis by blast
    next
      case unread
      have nw: "\<not> list_ex (is_write_to CC_SETTINGS_PATH) (emitted s s')"
        using unread(4,5) by auto
      have a: ?A using nw by blast
      have b: ?B
      proof (intro allI impI)
        fix old' ev' saved'
        assume p: "files s CC_SETTINGS_PATH = Some (JsonText old')
            \<and> hasClaudianFields old' = Inr True
            \<and> migratedEnvironmentVariables (prop_of old' ''environmentVariables'')
                 (prop_of old' ''env'') = Inr ev'
            \<and> wmode s CLAUDIAN_SETTINGS_PATH \<noteq> WriteThrows
            \<and> readBack d s (claudianFields d old' ev') = Inr saved'
            \<and> obj_get saved' ''userName'' = None"
        then have "old' = old \<and> ev' = ev" using uniq by blast
        then show "r = Inl VerificationError" using p unread(2) by simp
      qed
      have c: ?C using unread(3) readBack_error [OF unread(2)] by simp
      have d: ?D using unread(6) by simp
      from a b c d show ?thesis by blast
    next
      case unverified
      have nw: "\<not> list_ex (is_write_to CC_SETTINGS_PATH) (emitted s s')"
        using unverified(5,6) by auto
      have a: ?A using nw by blast
      have b: ?B using unverified(4) by simp
      have c: ?C using unverified(2,3,7) nw h(1) by blast
      have d: ?D using unverified(7) by simp
      from a b c d show ?thesis by blast
    next
      case verified
      have a: ?A using h(1,3) verified(1-6) by blast
      have b: ?B
      proof (intro allI impI)
        fix old' ev' saved'
        assume p: "files s CC_SETTINGS_PATH = Some (JsonText old')
            \<and> hasClaudianFields old' = Inr True
            \<and> migratedEnvironmentVariables (prop_of old' ''environmentVariables'')
                 (prop_of old' ''env'') = Inr ev'
            \<and> wmode s CLAUDIAN_SETTINGS_PATH \<noteq> WriteThrows
            \<and> readBack d s (claudianFields d old' ev') = Inr saved'
            \<and> obj_get saved' ''userName'' = None"
        then have "old' = old \<and> ev' = ev" using uniq by blast
        then have "saved' = saved" using p verified(3) by simp
        then show "r = Inl VerificationError" using p verified(4) by simp
      qed
      have rne: "r \<noteq> Inl VerificationError" using verified(7) by (simp split: if_splits)
      have c: ?C using rne by simp
      have d: ?D using verified(7,8) by (auto split: if_splits)
      from a b c d show ?thesis by blast
    qed
  qed
qed

section \<open>The verification gate on two legacy files\<close>

text \<open>Claim C2 on the legacy file of the end-to-end example, where the record read back
  defines \<^verbatim>\<open>userName\<close> and the migration reaches the rewrite of \<^verbatim>\<open>settings.json\<close>; and on
  a legacy file without a user name under a table of defaults that has none either, where
  the read-back lacks \<^verbatim>\<open>userName\<close> and the check holds the rewrite back.  The table of
  defaults is a parameter here; with a table that defines \<^verbatim>\<open>userName\<close> the second case
  does not arise.\<close>

theorem C2_witness:
  "list_ex (is_write_to CC_SETTINGS_PATH)
     (emitted legacyVault (snd (migrateFromOldSettingsJson mockDeps legacyVault)))
   \<and> (\<exists>old ev rd saved.
         files legacyVault CC_SETTINGS_PATH = Some (JsonText old)
         \<and> migratedEnvironmentVariables (prop_of old ''environmentVariables'')
              (prop_of old ''env'') = Inr ev
         \<and> (rd = [] \<or> rd = [Read CLAUDIAN_SETTINGS_PATH])
         \<and> emitted legacyVault (snd (migrateFromOldSettingsJson mockDeps legacyVault)) =
              [Read CC_SETTINGS_PATH,
               writeEvent legacyVault CLAUDIAN_SETTINGS_PATH
                 (JsonText (JObj (claudianFields mockDeps old ev))),
               Exists CLAUDIAN_SETTINGS_PATH] @ rd
              @ [writeEvent legacyVault CC_SETTINGS_PATH (JsonText (JObj (ccSettingsFor mockDeps old)))]
         \<and> wmode legacyVault CLAUDIAN_SETTINGS_PATH \<noteq> WriteThrows
         \<and> files (snd (migrateFromOldSettingsJson mockDeps legacyVault)) CLAUDIAN_SETTINGS_PATH
             = files (savedVault legacyVault (claudianFields mockDeps old ev)) CLAUDIAN_SETTINGS_PATH
         \<and> readBack mockDeps legacyVault (claudianFields mockDeps old ev) = Inr saved
         \<and> obj_get saved ''userName'' \<noteq> None)
   \<and> files (snd (migrateFromOldSettingsJson mockDeps legacyVault)) CLAUDIAN_SETTINGS_PATH
       = Some (JsonText (JObj (claudianFields mockDeps legacySettings (JStr []))))
   \<and> files vaultWithoutUserName CC_SETTINGS_PATH = Some (JsonText (JObj [(''model'', JStr ''opus'')]))
   \<and> hasClaudianFields (JObj [(''model'', JStr ''opus'')]) = Inr True
   \<and> wmode vaultWithoutUserName CLAUDIAN_SETTINGS_PATH = WriteOk
   \<and> readBack depsWithoutUserName vaultWithoutUserName
        (claudianFields depsWithoutUserName (JObj [(''model'', JStr ''opus'')]) (JStr []))
       = Inr [(''enableBlocklist'', JBool True),
              (''blockedCommands'',
               JObj [(''unix'', JArr [JStr ''rm -rf'']),
                     (''windows'', JArr [JStr ''Format-Volume''])]),
              (''model'', JStr ''opus''), (''environmentVariables'', JStr []),
              (''claudeCliPath'', JStr []), (''claudeCliPathsByHost'', JObj [])]
   \<and> fst (migrateFromOldSettingsJson depsWithoutUserName vaultWithoutUserName)
       = Inl VerificationError
   \<and> files (snd (migrateFromOldSettingsJson depsWithoutUserName vaultWithoutUserName))
        CC_SETTINGS_PATH
       = files vaultWithoutUserName CC_SETTINGS_PATH
   \<and> \<not> list_ex (is_write_to CC_SETTINGS_PATH)
        (emitted vaultWithoutUserName
           (snd (migrateFromOldSettingsJson depsWithoutUserName vaultWithoutUserName)))"
proof -
  let ?old = "JObj [(''model'', JStr ''opus'')]"
  let ?saved = "[(''enableBlocklist'', JBool True),
              (''blockedCommands'',
               JObj [(''unix'', JArr [JStr ''rm -rf'']),
                     (''windows'', JArr [JStr ''Format-Volume''])]),
              (''model'', JStr ''opus''), (''environmentVariables'', JStr []),
              (''claudeCliPath'', JStr []), (''claudeCliPathsByHost'', JObj [])]"
  have c1: "migrateFromOldSettingsJson mockDeps legacyVault
      = (fst (migrateFromOldSettingsJson mockDeps legacyVault),
         snd (migrateFromOldSettingsJson mockDeps legacyVault))" by simp
  have c2: "migrateFromOldSettingsJson depsWithoutUserName vaultWithoutUserName
      = (fst (migrateFromOldSettingsJson depsWithoutUserName vaultWithoutUserName),
         snd (migrateFromOldSettingsJson depsWithoutUserName vaultWithoutUserName))" by simp
  note t1 = C2_verification_gate [of mockDeps legacyVault
      "fst (migrateFromOldSettingsJson mockDeps legacyVault)"
      "snd (migrateFromOldSettingsJson mockDeps legacyVault)", THEN mp, OF c1]
  note t2 = C2_verification_gate [of depsWithoutUserName vaultWithoutUserName
      "fst (migrateFromOldSettingsJson depsWithoutUserName vaultWithoutUserName)"
      "snd (migrateFromOldSettingsJson depsWithoutUserName vaultWithoutUserName)", THEN mp, OF c2]
  have a: "list_ex (is_write_to CC_SETTINGS_PATH)
     (emitted legacyVault (snd (migrateFromOldSettingsJson mockDeps legacyVault)))"
    by code_simp
  note a1 = t1 [THEN conjunct1, THEN mp, OF a]
  have f1: "files (snd (migrateFromOldSettingsJson mockDeps legacyVault)) CLAUDIAN_SETTINGS_PATH
       = Some (JsonText (JObj (claudianFields mockDeps legacySettings (JStr []))))"
    by code_simp
  have h1: "files vaultWithoutUserName CC_SETTINGS_PATH = Some (JsonText ?old)" by code_simp
  have h2: "hasClaudianFields ?old = Inr True" by code_simp
  have h3: "migratedEnvironmentVariables (prop_of ?old ''environmentVariables'')
              (prop_of ?old ''env'') = Inr (JStr [])" by code_simp
  have h4: "wmode vaultWithoutUserName CLAUDIAN_SETTINGS_PATH = WriteOk" by code_simp
  have h5: "readBack depsWithoutUserName vaultWithoutUserName
        (claudianFields depsWithoutUserName ?old (JStr [])) = Inr ?saved" by code_simp
  have h6: "obj_get ?saved ''userName'' = None" by code_simp
  have h4': "wmode vaultWithoutUserName CLAUDIAN_SETTINGS_PATH \<noteq> WriteThrows"
    using h4 by simp
  note b2 = t2 [THEN conjunct2, THEN conjunct1, THEN spec, THEN spec, THEN spec, THEN mp,
      OF conjI [OF h1 conjI [OF h2 conjI [OF h3 conjI [OF h4' conjI [OF h5 h6]]]]]]
  note c2' = t2 [THEN conjunct2, THEN conjunct2, THEN conjunct1, THEN mp, OF b2]
  from c2' have e2: "files (snd (migrateFromOldSettingsJson depsWithoutUserName vaultWithoutUserName))
        CC_SETTINGS_PATH = files vaultWithoutUserName CC_SETTINGS_PATH"
      "\<not> list_ex (is_write_to CC_SETTINGS_PATH)
        (emitted vaultWithoutUserName
           (snd (migrateFromOldSettingsJson depsWithoutUserName vaultWithoutUserName)))"
    by blast+
  from a a1 f1 h1 h2 h4 h5 b2 e2 show ?thesis by (intro conjI)
qed

section \<open>The permissions of the rewritten settings file\<close>








section \<open>The state migration on the vaults of the examples\<close>





end
